theory Spec2Isabelle
  imports Complex_Main "HOL-Library.Monad_Syntax"
begin

section \<open>Ring buffers: \<open>collections.deque(maxlen=N)\<close>\<close>

text \<open>
  All three scripts keep their sample history in \<open>deque(maxlen=WINDOW)\<close> objects.
  A deque is modelled by its capacity and its contents, oldest element first.
  \<open>append\<close> adds the new element on the right and, when the capacity is then
  exceeded, removes the leftmost element.
\<close>

record 'a deque =
  maxlen :: nat
  items :: "'a list"

definition deque_new :: "nat \<Rightarrow> 'a deque" where
  "deque_new n = \<lparr>maxlen = n, items = []\<rparr>"

definition deque_append :: "'a deque \<Rightarrow> 'a \<Rightarrow> 'a deque" where
  "deque_append d v =
     (let ys = items d @ [v]
      in d\<lparr>items := (if maxlen d < length ys then tl ys else ys)\<rparr>)"

definition len :: "'a deque \<Rightarrow> nat" where
  "len d = length (items d)"

text \<open>\<open>list(d)\<close>: the contents, oldest first.\<close>

definition snapshot :: "'a deque \<Rightarrow> 'a list" where
  "snapshot d = items d"

definition WINDOW :: nat where
  "WINDOW = 200"

section \<open>Text of a line: \<open>strip\<close>, \<open>split(',')\<close> and \<open>float\<close>\<close>

text \<open>
  A decoded line is a \<open>string\<close>; the model covers code points below 256.
  \<open>py_isspace\<close> is \<open>str.isspace\<close> on these code points: TAB to CR, the
  separators FS to US, SPACE, NEL and NBSP.
\<close>

definition py_isspace :: "char \<Rightarrow> bool" where
  "py_isspace c =
     (let n = (of_char c :: nat)
      in (9 \<le> n \<and> n \<le> 13) \<or> (28 \<le> n \<and> n \<le> 32) \<or> n = 133 \<or> n = 160)"

definition strip :: "string \<Rightarrow> string" where
  "strip s = rev (dropWhile py_isspace (rev (dropWhile py_isspace s)))"

text \<open>\<open>s.split(',')\<close>: always at least one field; an empty string gives one empty field.\<close>

fun split_comma :: "string \<Rightarrow> string list" where
  "split_comma [] = [[]]"
| "split_comma (c # cs) =
     (if c = CHR '','' then [] # split_comma cs
      else (case split_comma cs of
              [] \<Rightarrow> [[c]]
            | p # ps \<Rightarrow> (c # p) # ps))"

text \<open>
  The values \<open>float\<close> can return. A finite value is carried as the exact real number
  the literal denotes; rounding to binary64 is not part of the model.
\<close>

datatype pyfloat = Finite real | PosInf | NegInf | NaN

fun fneg :: "pyfloat \<Rightarrow> pyfloat" where
  "fneg (Finite x) = Finite (- x)"
| "fneg PosInf = NegInf"
| "fneg NegInf = PosInf"
| "fneg NaN = NaN"

definition is_digit :: "char \<Rightarrow> bool" where
  "is_digit c = (let n = (of_char c :: nat) in 48 \<le> n \<and> n \<le> 57)"

definition digit_val :: "char \<Rightarrow> nat" where
  "digit_val c = of_char c - 48"

definition to_lower :: "char \<Rightarrow> char" where
  "to_lower c =
     (let n = (of_char c :: nat) in if 65 \<le> n \<and> n \<le> 90 then char_of (n + 32) else c)"

text \<open>
  A digit part is a non-empty run of decimal digits in which single underscores may stand
  between two digits. The result is the list of digit values, or \<open>None\<close> when the
  text is not a digit part.
\<close>

fun digitpart :: "string \<Rightarrow> nat list option" where
  "digitpart [] = None"
| "digitpart [c] = (if is_digit c then Some [digit_val c] else None)"
| "digitpart (c # d # cs) =
     (if is_digit c then
        (if d = CHR ''_'' then map_option ((#) (digit_val c)) (digitpart cs)
         else map_option ((#) (digit_val c)) (digitpart (d # cs)))
      else None)"

definition digits_value :: "nat list \<Rightarrow> nat" where
  "digits_value ds = foldl (\<lambda>a d. 10 * a + d) 0 ds"

definition opt_digitpart :: "string \<Rightarrow> nat list option" where
  "opt_digitpart s = (if s = [] then Some [] else digitpart s)"

text \<open>The mantissa: \<open>digits\<close>, \<open>digits.\<close>, \<open>digits.digits\<close> or \<open>.digits\<close>.
  The result is the digits read as one number and the count of fraction digits.\<close>

definition mantissa :: "string \<Rightarrow> (nat \<times> nat) option" where
  "mantissa m =
     (let ip = takeWhile (\<lambda>c. c \<noteq> CHR ''.'') m;
          rest = dropWhile (\<lambda>c. c \<noteq> CHR ''.'') m
      in if rest = [] then map_option (\<lambda>ds. (digits_value ds, 0)) (digitpart ip)
         else if ip = [] \<and> tl rest = [] then None
         else (case (opt_digitpart ip, opt_digitpart (tl rest)) of
                 (Some ds, Some fs) \<Rightarrow> Some (digits_value (ds @ fs), length fs)
               | _ \<Rightarrow> None))"

text \<open>The exponent after \<open>e\<close> or \<open>E\<close>: an optional sign and a digit part.\<close>

definition exponent :: "string \<Rightarrow> int option" where
  "exponent e =
     (case e of
        [] \<Rightarrow> None
      | c # cs \<Rightarrow>
          (if c = CHR ''-'' then map_option (\<lambda>ds. - int (digits_value ds)) (digitpart cs)
           else if c = CHR ''+'' then map_option (\<lambda>ds. int (digits_value ds)) (digitpart cs)
           else map_option (\<lambda>ds. int (digits_value ds)) (digitpart e)))"

definition scale10 :: "real \<Rightarrow> int \<Rightarrow> real" where
  "scale10 x k = (if 0 \<le> k then x * 10 ^ nat k else x / 10 ^ nat (- k))"

definition decimal :: "string \<Rightarrow> pyfloat option" where
  "decimal u =
     (let is_e = (\<lambda>c. c = CHR ''e'' \<or> c = CHR ''E'');
          m = takeWhile (\<lambda>c. \<not> is_e c) u;
          rest = dropWhile (\<lambda>c. \<not> is_e c) u
      in case mantissa m of
           None \<Rightarrow> None
         | Some (n, k) \<Rightarrow>
             (if rest = [] then Some (Finite (scale10 (real n) (- int k)))
              else (case exponent (tl rest) of
                      None \<Rightarrow> None
                    | Some x \<Rightarrow> Some (Finite (scale10 (real n) (x - int k))))))"

definition unsigned_float :: "string \<Rightarrow> pyfloat option" where
  "unsigned_float u =
     (let l = map to_lower u
      in if l = ''inf'' \<or> l = ''infinity'' then Some PosInf
         else if l = ''nan'' then Some NaN
         else decimal u)"

text \<open>
  The builtin \<open>float\<close> on a string: \<open>Some\<close> the value, or \<open>None\<close> where it raises
  ValueError. Surrounding whitespace is removed, then an optional sign is read.
\<close>

definition py_float :: "string \<Rightarrow> pyfloat option" where
  "py_float s =
     (case strip s of
        [] \<Rightarrow> None
      | c # cs \<Rightarrow>
          (if c = CHR ''-'' then map_option fneg (unsigned_float cs)
           else if c = CHR ''+'' then unsigned_float cs
           else unsigned_float (c # cs)))"

section \<open>SampleParser: the three \<open>parse_line\<close> functions\<close>

text \<open>
  Each \<open>parse_line\<close> runs inside \<open>try\<close> with a bare \<open>except\<close> that returns
  \<open>None\<close> (a tuple of \<open>None\<close>s in the two- and three-axis scripts). The callers test
  only \<open>pitch is None\<close>, and the components are either all \<open>None\<close> or all floats,
  so "no sample" is the value \<open>None\<close> of the model.
\<close>

text \<open>Pitch.py: the first field only.\<close>

definition parse_line_p :: "string \<Rightarrow> pyfloat option" where
  "parse_line_p line =
     (case split_comma (strip line) of
        [] \<Rightarrow> None
      | p0 # _ \<Rightarrow> py_float p0)"

text \<open>Roll_Pitch.py: at least two fields, the first two are read.\<close>

definition parse_line_rp :: "string \<Rightarrow> (pyfloat \<times> pyfloat) option" where
  "parse_line_rp line =
     (let parts = split_comma (strip line)
      in if 2 \<le> length parts then
           (case (py_float (parts ! 0), py_float (parts ! 1)) of
              (Some pitch, Some roll) \<Rightarrow> Some (pitch, roll)
            | _ \<Rightarrow> None)
         else None)"

text \<open>Roll_Pitch_Yaw.py: exactly three fields, or exactly two with yaw 0.0.\<close>

definition parse_line_rpy :: "string \<Rightarrow> (pyfloat \<times> pyfloat \<times> pyfloat) option" where
  "parse_line_rpy line =
     (let parts = split_comma (strip line)
      in if length parts = 3 then
           (case (py_float (parts ! 0), py_float (parts ! 1), py_float (parts ! 2)) of
              (Some pitch, Some roll, Some yaw) \<Rightarrow> Some (pitch, roll, yaw)
            | _ \<Rightarrow> None)
         else if length parts = 2 then
           (case (py_float (parts ! 0), py_float (parts ! 1)) of
              (Some pitch, Some roll) \<Rightarrow> Some (pitch, roll, Finite 0)
            | _ \<Rightarrow> None)
         else None)"

section \<open>Driver loop: the \<open>update\<close> callbacks\<close>

text \<open>
  The global buffers of each script and the x-limits of its time-series axes are the
  fields of a state record. The serial port is the list of results that successive
  \<open>ser.readline().decode(errors='ignore')\<close> calls return: an empty string is a read
  that timed out, and a port with nothing left to deliver times out. Each \<open>update\<close>
  returns the new state and the results not yet read. The other drawing calls are left
  to the renderer.
\<close>

text \<open>\<open>len(x_idx) + 1 if x_idx else 1\<close>: the value appended to the index buffer.\<close>

definition next_index :: "int deque \<Rightarrow> int" where
  "next_index x_idx = (if items x_idx \<noteq> [] then int (len x_idx) + 1 else 1)"

text \<open>
  The arguments of \<open>ax1.set_xlim\<close>:
  \<open>max(0, len(xs)-WINDOW), max(WINDOW, len(xs))\<close> with \<open>xs = list(range(len(x_idx)))\<close>.
\<close>

definition xlim_bounds :: "int deque \<Rightarrow> int \<times> int" where
  "xlim_bounds x_idx =
     (let xs = [0..<len x_idx]
      in (max 0 (int (length xs) - int WINDOW), max (int WINDOW) (int (length xs))))"

text \<open>
  The read loop of all three scripts: up to \<open>n\<close> reads, stopping at the first empty
  one. The result is the lines read and the port's remaining results.
\<close>

fun read_lines :: "nat \<Rightarrow> string list \<Rightarrow> string list \<times> string list" where
  "read_lines 0 rs = ([], rs)"
| "read_lines (Suc n) [] = ([], [])"
| "read_lines (Suc n) (raw # rs) =
     (if raw = [] then ([], rs)
      else (case read_lines n rs of (ls, rs') \<Rightarrow> (raw # ls, rs')))"

subsection \<open>Pitch.py\<close>

record state_p =
  pitch_buf_p :: "pyfloat deque"
  x_idx_p :: "int deque"
  ax1_xlim_p :: "int \<times> int"

definition init_p :: state_p where
  "init_p = \<lparr>pitch_buf_p = deque_new WINDOW, x_idx_p = deque_new WINDOW,
             ax1_xlim_p = (0, int WINDOW)\<rparr>"

definition accept_p :: "state_p \<Rightarrow> pyfloat \<Rightarrow> state_p" where
  "accept_p st pitch =
     (let st1 = st\<lparr>pitch_buf_p := deque_append (pitch_buf_p st) pitch\<rparr>
      in st1\<lparr>x_idx_p := deque_append (x_idx_p st1) (next_index (x_idx_p st1))\<rparr>)"

text \<open>
  \<open>for _ in range(n)\<close>: read, stop on an empty read, skip a line that does not parse,
  append an accepted sample at once.
\<close>

fun read_loop_p :: "nat \<Rightarrow> state_p \<Rightarrow> string list \<Rightarrow> state_p \<times> string list" where
  "read_loop_p 0 st rs = (st, rs)"
| "read_loop_p (Suc n) st [] = (st, [])"
| "read_loop_p (Suc n) st (raw # rs) =
     (if raw = [] then (st, rs)
      else (case parse_line_p raw of
              None \<Rightarrow> read_loop_p n st rs
            | Some pitch \<Rightarrow> read_loop_p n (accept_p st pitch) rs))"

definition update_p :: "state_p \<Rightarrow> string list \<Rightarrow> state_p \<times> string list" where
  "update_p st rs =
     (case read_loop_p 5 st rs of
        (st', rs') \<Rightarrow> (st'\<lparr>ax1_xlim_p := xlim_bounds (x_idx_p st')\<rparr>, rs'))"

text \<open>The animation timer: \<open>n\<close> calls of \<open>update\<close> in a row.\<close>

fun ticks_p :: "nat \<Rightarrow> state_p \<Rightarrow> string list \<Rightarrow> state_p \<times> string list" where
  "ticks_p 0 st rs = (st, rs)"
| "ticks_p (Suc n) st rs =
     (case update_p st rs of (st', rs') \<Rightarrow> ticks_p n st' rs')"

subsection \<open>Roll_Pitch.py\<close>

record state_rp =
  pitch_buf_rp :: "pyfloat deque"
  roll_buf_rp :: "pyfloat deque"
  x_idx_rp :: "int deque"
  ax1_xlim_rp :: "int \<times> int"

definition init_rp :: state_rp where
  "init_rp = \<lparr>pitch_buf_rp = deque_new WINDOW, roll_buf_rp = deque_new WINDOW,
              x_idx_rp = deque_new WINDOW, ax1_xlim_rp = (0, int WINDOW)\<rparr>"

definition accept_rp :: "state_rp \<Rightarrow> pyfloat \<times> pyfloat \<Rightarrow> state_rp" where
  "accept_rp st s =
     (case s of (pitch, roll) \<Rightarrow>
        (let st1 = st\<lparr>pitch_buf_rp := deque_append (pitch_buf_rp st) pitch\<rparr>;
             st2 = st1\<lparr>roll_buf_rp := deque_append (roll_buf_rp st1) roll\<rparr>
         in st2\<lparr>x_idx_rp := deque_append (x_idx_rp st2) (next_index (x_idx_rp st2))\<rparr>))"

fun read_loop_rp :: "nat \<Rightarrow> state_rp \<Rightarrow> string list \<Rightarrow> state_rp \<times> string list" where
  "read_loop_rp 0 st rs = (st, rs)"
| "read_loop_rp (Suc n) st [] = (st, [])"
| "read_loop_rp (Suc n) st (raw # rs) =
     (if raw = [] then (st, rs)
      else (case parse_line_rp raw of
              None \<Rightarrow> read_loop_rp n st rs
            | Some s \<Rightarrow> read_loop_rp n (accept_rp st s) rs))"

definition update_rp :: "state_rp \<Rightarrow> string list \<Rightarrow> state_rp \<times> string list" where
  "update_rp st rs =
     (case read_loop_rp 20 st rs of
        (st', rs') \<Rightarrow> (st'\<lparr>ax1_xlim_rp := xlim_bounds (x_idx_rp st')\<rparr>, rs'))"

fun ticks_rp :: "nat \<Rightarrow> state_rp \<Rightarrow> string list \<Rightarrow> state_rp \<times> string list" where
  "ticks_rp 0 st rs = (st, rs)"
| "ticks_rp (Suc n) st rs =
     (case update_rp st rs of (st', rs') \<Rightarrow> ticks_rp n st' rs')"

subsection \<open>Roll_Pitch_Yaw.py\<close>

record state_rpy =
  pitch_buf :: "pyfloat deque"
  roll_buf :: "pyfloat deque"
  yaw_buf :: "pyfloat deque"
  x_idx :: "int deque"
  ax1_xlim :: "int \<times> int"

definition init_rpy :: state_rpy where
  "init_rpy = \<lparr>pitch_buf = deque_new WINDOW, roll_buf = deque_new WINDOW,
               yaw_buf = deque_new WINDOW, x_idx = deque_new WINDOW,
               ax1_xlim = (0, int WINDOW)\<rparr>"

definition accept_rpy :: "state_rpy \<Rightarrow> pyfloat \<times> pyfloat \<times> pyfloat \<Rightarrow> state_rpy" where
  "accept_rpy st s =
     (case s of (pitch, roll, yaw) \<Rightarrow>
        (let st1 = st\<lparr>pitch_buf := deque_append (pitch_buf st) pitch\<rparr>;
             st2 = st1\<lparr>roll_buf := deque_append (roll_buf st1) roll\<rparr>;
             st3 = st2\<lparr>yaw_buf := deque_append (yaw_buf st2) yaw\<rparr>
         in st3\<lparr>x_idx := deque_append (x_idx st3) (next_index (x_idx st3))\<rparr>))"

text \<open>This script first collects up to 20 lines, then parses them.\<close>

fun process_lines :: "state_rpy \<Rightarrow> string list \<Rightarrow> state_rpy" where
  "process_lines st [] = st"
| "process_lines st (raw # ls) =
     (case parse_line_rpy raw of
        None \<Rightarrow> process_lines st ls
      | Some s \<Rightarrow> process_lines (accept_rpy st s) ls)"

definition update_rpy :: "state_rpy \<Rightarrow> string list \<Rightarrow> state_rpy \<times> string list" where
  "update_rpy st rs =
     (case read_lines 20 rs of
        (ls, rs') \<Rightarrow>
          (let st' = process_lines st ls
           in (st'\<lparr>ax1_xlim := xlim_bounds (x_idx st')\<rparr>, rs')))"

fun ticks_rpy :: "nat \<Rightarrow> state_rpy \<Rightarrow> string list \<Rightarrow> state_rpy \<times> string list" where
  "ticks_rpy 0 st rs = (st, rs)"
| "ticks_rpy (Suc n) st rs =
     (case update_rpy st rs of (st', rs') \<Rightarrow> ticks_rpy n st' rs')"

section \<open>PoseComposer: \<open>create_table_vertices\<close> and \<open>create_table_faces\<close>\<close>

text \<open>
  A two-dimensional numpy array is a list of rows. The arithmetic of the arrays is that
  of the real numbers: rounding of binary64 is not part of the model. An operation that
  numpy would refuse (a shape mismatch in \<open>@\<close>, an index out of range) is \<open>None\<close>.
\<close>

type_synonym matrix = "real list list"

definition dot :: "real list \<Rightarrow> real list \<Rightarrow> real" where
  "dot u v = sum_list (map2 (*) u v)"

text \<open>\<open>A @ B\<close>: every row of \<open>A\<close> must be as long as \<open>B\<close> has rows.\<close>

definition matmul :: "matrix \<Rightarrow> matrix \<Rightarrow> matrix option" where
  "matmul A B =
     (if list_all (\<lambda>row. length row = length B) A
      then Some (map (\<lambda>row. map (dot row) (transpose B)) A)
      else None)"

text \<open>\<open>np.radians\<close>.\<close>

definition radians :: "real \<Rightarrow> real" where
  "radians deg = deg * pi / 180"

definition Ry :: "real \<Rightarrow> matrix" where
  "Ry pitch_rad =
     [[cos pitch_rad, 0, sin pitch_rad],
      [0, 1, 0],
      [- sin pitch_rad, 0, cos pitch_rad]]"

definition Rx :: "real \<Rightarrow> matrix" where
  "Rx roll_rad =
     [[1, 0, 0],
      [0, cos roll_rad, - sin roll_rad],
      [0, sin roll_rad, cos roll_rad]]"

definition Rz :: "real \<Rightarrow> matrix" where
  "Rz yaw_rad =
     [[cos yaw_rad, - sin yaw_rad, 0],
      [sin yaw_rad, cos yaw_rad, 0],
      [0, 0, 1]]"

text \<open>Roll_Pitch_Yaw.py: \<open>R = Rz @ Rx @ Ry\<close>, which Python reads as \<open>(Rz @ Rx) @ Ry\<close>.\<close>

definition rotation_rpy :: "real \<Rightarrow> real \<Rightarrow> real \<Rightarrow> matrix option" where
  "rotation_rpy pitch_deg roll_deg yaw_deg =
     do {
       m \<leftarrow> matmul (Rz (radians yaw_deg)) (Rx (radians roll_deg));
       matmul m (Ry (radians pitch_deg))
     }"

text \<open>Roll_Pitch.py: \<open>R = Rx @ Ry\<close>.\<close>

definition rotation_rp :: "real \<Rightarrow> real \<Rightarrow> matrix option" where
  "rotation_rp pitch_deg roll_deg = matmul (Rx (radians roll_deg)) (Ry (radians pitch_deg))"

text \<open>The rest pose, the same in both scripts.\<close>

definition tw :: real where "tw = 3.0"
definition td :: real where "td = 2.0"
definition th :: real where "th = 0.15"
definition leg_w :: real where "leg_w = 0.15"
definition leg_h :: real where "leg_h = 1.2"
definition leg_inset :: real where "leg_inset = 0.3"

definition tabletop :: matrix where
  "tabletop =
     [[- tw / 2, - td / 2, 0], [tw / 2, - td / 2, 0], [tw / 2, td / 2, 0], [- tw / 2, td / 2, 0],
      [- tw / 2, - td / 2, th], [tw / 2, - td / 2, th], [tw / 2, td / 2, th], [- tw / 2, td / 2, th]]"

definition leg_positions :: "(real \<times> real) list" where
  "leg_positions =
     [(- tw / 2 + leg_inset, - td / 2 + leg_inset),
      (tw / 2 - leg_inset, - td / 2 + leg_inset),
      (tw / 2 - leg_inset, td / 2 - leg_inset),
      (- tw / 2 + leg_inset, td / 2 - leg_inset)]"

definition leg :: "real \<Rightarrow> real \<Rightarrow> matrix" where
  "leg lx ly =
     [[lx - leg_w / 2, ly - leg_w / 2, - leg_h], [lx + leg_w / 2, ly - leg_w / 2, - leg_h],
      [lx + leg_w / 2, ly + leg_w / 2, - leg_h], [lx - leg_w / 2, ly + leg_w / 2, - leg_h],
      [lx - leg_w / 2, ly - leg_w / 2, 0], [lx + leg_w / 2, ly - leg_w / 2, 0],
      [lx + leg_w / 2, ly + leg_w / 2, 0], [lx - leg_w / 2, ly + leg_w / 2, 0]]"

definition legs :: "matrix list" where
  "legs = map (\<lambda>(lx, ly). leg lx ly) leg_positions"

text \<open>\<open>a[:, 2] += 1.5\<close>: every row needs a column 2.\<close>

definition lift :: "matrix \<Rightarrow> matrix option" where
  "lift a =
     (if list_all (\<lambda>row. 2 < length row) a
      then Some (map (\<lambda>row. row[2 := row ! 2 + 1.5]) a)
      else None)"

text \<open>The part of \<open>create_table_vertices\<close> after \<open>R\<close>, the same in both scripts.\<close>

definition rotate_and_lift :: "matrix \<Rightarrow> (matrix \<times> matrix list) option" where
  "rotate_and_lift R =
     do {
       tabletop_rot \<leftarrow> matmul tabletop (transpose R);
       legs_rot \<leftarrow> those (map (\<lambda>leg. matmul leg (transpose R)) legs);
       tabletop_lifted \<leftarrow> lift tabletop_rot;
       legs_lifted \<leftarrow> those (map lift legs_rot);
       Some (tabletop_lifted, legs_lifted)
     }"

definition create_table_vertices_rpy ::
    "real \<Rightarrow> real \<Rightarrow> real \<Rightarrow> (matrix \<times> matrix list) option" where
  "create_table_vertices_rpy pitch_deg roll_deg yaw_deg =
     do {
       R \<leftarrow> rotation_rpy pitch_deg roll_deg yaw_deg;
       rotate_and_lift R
     }"

definition create_table_vertices_rp :: "real \<Rightarrow> real \<Rightarrow> (matrix \<times> matrix list) option" where
  "create_table_vertices_rp pitch_deg roll_deg =
     do {
       R \<leftarrow> rotation_rp pitch_deg roll_deg;
       rotate_and_lift R
     }"

text \<open>\<open>a[i]\<close> for a row index written in the source, IndexError as \<open>None\<close>.\<close>

definition row :: "matrix \<Rightarrow> nat \<Rightarrow> real list option" where
  "row a i = (if i < length a then Some (a ! i) else None)"

text \<open>The six faces of one cuboid, in the order bottom, top, front, back, left, right.\<close>

definition cuboid_faces :: "matrix \<Rightarrow> real list list list option" where
  "cuboid_faces a =
     those (map (\<lambda>face. those (map (row a) face))
       [[0, 1, 2, 3], [4, 5, 6, 7], [0, 1, 5, 4], [2, 3, 7, 6], [0, 3, 7, 4], [1, 2, 6, 5]])"

definition create_table_faces :: "matrix \<Rightarrow> matrix list \<Rightarrow> real list list list option" where
  "create_table_faces tabletop_verts legs_verts =
     do {
       top_faces \<leftarrow> cuboid_faces tabletop_verts;
       leg_faces \<leftarrow> those (map cuboid_faces legs_verts);
       Some (top_faces @ concat leg_faces)
     }"

section \<open>Notions of the specification\<close>

text \<open>
  These definitions follow the words of the specification, not the source; the theorems
  compare the source's functions with them.
\<close>

text \<open>A matrix applied to a column vector.\<close>

definition apply_mat :: "matrix \<Rightarrow> real list \<Rightarrow> real list" where
  "apply_mat M v = map (\<lambda>r. dot r v) M"

text \<open>The fixed lift offset along the vertical axis, on one vertex.\<close>

fun lift_vertex :: "real list \<Rightarrow> real list" where
  "lift_vertex [x, y, z] = [x, y, z + 1.5]"
| "lift_vertex v = v"

text \<open>Pitch applied first, then roll, then yaw, then the lift.\<close>

definition pose_spec :: "real \<Rightarrow> real \<Rightarrow> real \<Rightarrow> real list \<Rightarrow> real list" where
  "pose_spec pitch_deg roll_deg yaw_deg v =
     lift_vertex (apply_mat (Rz (radians yaw_deg))
       (apply_mat (Rx (radians roll_deg)) (apply_mat (Ry (radians pitch_deg)) v)))"

definition identity3 :: matrix where
  "identity3 = [[1, 0, 0], [0, 1, 0], [0, 0, 1]]"

fun det3 :: "matrix \<Rightarrow> real" where
  "det3 [[a, b, c], [d, e, f], [g, h, i]] =
     a * (e * i - f * h) - b * (d * i - f * g) + c * (d * h - e * g)"
| "det3 M = 0"

text \<open>The squared Euclidean distance of two points.\<close>

definition sq_dist :: "real list \<Rightarrow> real list \<Rightarrow> real" where
  "sq_dist u v = sum_list (map2 (\<lambda>a b. (a - b)\<^sup>2) u v)"

text \<open>All vertices of a mesh, the tabletop's first.\<close>

definition mesh_points :: "matrix \<times> matrix list \<Rightarrow> real list list" where
  "mesh_points m = fst m @ concat (snd m)"

text \<open>
  The accepted samples of a run: every value that \<open>n\<close> ticks hand to the buffers, in
  order. The specification's count of accepted samples since startup is the length of
  this list.
\<close>

fun accepted_p :: "nat \<Rightarrow> string list \<Rightarrow> pyfloat list" where
  "accepted_p 0 rs = []"
| "accepted_p (Suc n) rs =
     (case read_lines 5 rs of
        (ls, rs') \<Rightarrow> List.map_filter parse_line_p ls @ accepted_p n rs')"

fun accepted_rp :: "nat \<Rightarrow> string list \<Rightarrow> (pyfloat \<times> pyfloat) list" where
  "accepted_rp 0 rs = []"
| "accepted_rp (Suc n) rs =
     (case read_lines 20 rs of
        (ls, rs') \<Rightarrow> List.map_filter parse_line_rp ls @ accepted_rp n rs')"

fun accepted_rpy :: "nat \<Rightarrow> string list \<Rightarrow> (pyfloat \<times> pyfloat \<times> pyfloat) list" where
  "accepted_rpy 0 rs = []"
| "accepted_rpy (Suc n) rs =
     (case read_lines 20 rs of
        (ls, rs') \<Rightarrow> List.map_filter parse_line_rpy ls @ accepted_rpy n rs')"

text \<open>One accepted sample seen from the index buffer: \<open>x_idx.append(len(x_idx) + 1 if x_idx else 1)\<close>.\<close>

definition push_index :: "int deque \<Rightarrow> int deque" where
  "push_index d = deque_append d (next_index d)"

text \<open>The index values the specification asks for: 1, 2, 3 and so on, one per sample.\<close>

definition index_spec :: "nat \<Rightarrow> int list" where
  "index_spec count = map int [1..<Suc count]"

section \<open>Ring buffer properties\<close>

lemma maxlen_append: "maxlen (deque_append d v) = maxlen d"
  by (simp add: deque_append_def Let_def)

lemma items_append:
  "items (deque_append d v) =
     (if maxlen d < Suc (length (items d)) then tl (items d @ [v]) else items d @ [v])"
  by (simp add: deque_append_def Let_def)

lemma maxlen_pushes: "maxlen (foldl deque_append d vs) = maxlen d"
  by (induction vs arbitrary: d) (simp_all add: maxlen_append)

text \<open>
  A buffer that respects its capacity holds, after any further pushes, the newest
  \<open>maxlen\<close> elements of everything it held and was given.
\<close>

lemma items_pushes:
  "length (items d) \<le> maxlen d \<Longrightarrow>
   items (foldl deque_append d vs) =
     drop (length (items d) + length vs - maxlen d) (items d @ vs)"
proof (induction vs arbitrary: d)
  case Nil
  then show ?case by simp
next
  case (Cons v vs)
  let ?d = "deque_append d v"
  have le: "length (items ?d) \<le> maxlen ?d"
    using Cons.prems by (auto simp: items_append maxlen_append)
  show ?case
  proof (cases "maxlen d < Suc (length (items d))")
    case True
    with Cons.prems have eq: "length (items d) = maxlen d" by simp
    have it: "items ?d = tl (items d @ [v])" using True by (simp add: items_append)
    have "items (foldl deque_append ?d vs) =
            drop (length (items ?d) + length vs - maxlen ?d) (items ?d @ vs)"
      by (rule Cons.IH [OF le])
    also have "\<dots> = drop (length vs) (tl (items d @ [v]) @ vs)"
      using eq by (simp add: it maxlen_append)
    also have "\<dots> = drop (Suc (length vs)) (items d @ v # vs)"
      by (cases "items d") (simp_all add: drop_Suc)
    finally show ?thesis using eq by simp
  next
    case False
    then have it: "items ?d = items d @ [v]" by (simp add: items_append)
    have "items (foldl deque_append ?d vs) =
            drop (length (items ?d) + length vs - maxlen ?d) (items ?d @ vs)"
      by (rule Cons.IH [OF le])
    then show ?thesis by (simp add: it maxlen_append)
  qed
qed

text \<open>
  Claim C5. A ring buffer of capacity \<open>N\<close> that has been given \<open>N + k\<close> values holds
  \<open>min (N + k) N\<close> of them, its snapshot is the last \<open>N\<close> values given, in the order
  they were given, and its capacity is still \<open>N\<close>.
\<close>

theorem ring_buffer_keeps_last:
  "length vs = N + k \<Longrightarrow>
     len (foldl deque_append (deque_new N) vs) = min (N + k) N
   \<and> snapshot (foldl deque_append (deque_new N) vs) = drop k vs
   \<and> maxlen (foldl deque_append (deque_new N) vs) = N"
  using items_pushes [of "deque_new N" vs]
  by (simp add: len_def snapshot_def maxlen_pushes deque_new_def)

theorem ring_buffer_keeps_last_witness:
  "len (foldl deque_append (deque_new 3) [10, 20, 30, 40, 50 :: int]) = 3
   \<and> snapshot (foldl deque_append (deque_new 3) [10, 20, 30, 40, 50 :: int]) = [30, 40, 50]
   \<and> maxlen (foldl deque_append (deque_new 3) [10, 20, 30, 40, 50 :: int]) = 3"
  using ring_buffer_keeps_last [of "[10, 20, 30, 40, 50 :: int]" 3 2] by simp

section \<open>Driver loop properties\<close>

lemma deque_new_fields: "items (deque_new n) = []" "maxlen (deque_new n) = n"
  by (simp_all add: deque_new_def)

lemma funpow_plus: "(f ^^ (a + b)) x = (f ^^ b) ((f ^^ a) x)"
  by (metis add.commute funpow_add o_apply)

lemma len_pushes:
  "length (items d) \<le> maxlen d \<Longrightarrow>
   len (foldl deque_append d vs) = min (length (items d) + length vs) (maxlen d)"
  by (simp add: len_def items_pushes)

text \<open>
  The index buffer is fed from its own length, so it receives \<open>1, 2, \<dots>\<close> only until
  it is full; from then on every value is the capacity plus one.
\<close>

lemma index_run:
  "(push_index ^^ n) (deque_new W) =
     foldl deque_append (deque_new W) (map (\<lambda>k. min (int k) (int W + 1)) [Suc 0..<Suc n])"
proof (induction n)
  case 0
  show ?case by simp
next
  case (Suc n)
  let ?d = "foldl deque_append (deque_new W) (map (\<lambda>k. min (int k) (int W + 1)) [Suc 0..<Suc n])"
  have l: "len ?d = min n W"
    using len_pushes [of "deque_new W" "map (\<lambda>k. min (int k) (int W + 1)) [Suc 0..<Suc n]"]
    by (simp add: deque_new_def)
  have "next_index ?d = min (int (Suc n)) (int W + 1)"
    using l by (auto simp: next_index_def len_def)
  then show ?case
    using Suc.IH by (simp add: push_index_def)
qed

lemma index_run_len:
  "len ((push_index ^^ n) (deque_new W)) = min n W"
  using len_pushes [of "deque_new W" "map (\<lambda>k. min (int k) (int W + 1)) [Suc 0..<Suc n]"]
  by (simp add: index_run deque_new_fields del: upt_Suc)

lemma index_run_items:
  "items ((push_index ^^ n) (deque_new W)) =
     drop (n - W) (map (\<lambda>k. min (int k) (int W + 1)) [Suc 0..<Suc n])"
  using items_pushes [of "deque_new W" "map (\<lambda>k. min (int k) (int W + 1)) [Suc 0..<Suc n]"]
  by (simp add: index_run deque_new_fields del: upt_Suc)

lemma xlim_bounds_full: "len d \<le> WINDOW \<Longrightarrow> xlim_bounds d = (0, int WINDOW)"
  by (simp add: xlim_bounds_def)

subsection \<open>The read loops as folds over the accepted samples\<close>

lemma read_loop_p_eq:
  "read_loop_p k st rs =
     (foldl accept_p st (List.map_filter parse_line_p (fst (read_lines k rs))),
      snd (read_lines k rs))"
  by (induction k st rs rule: read_loop_p.induct)
     (auto split: option.splits prod.splits)

lemma read_loop_rp_eq:
  "read_loop_rp k st rs =
     (foldl accept_rp st (List.map_filter parse_line_rp (fst (read_lines k rs))),
      snd (read_lines k rs))"
  by (induction k st rs rule: read_loop_rp.induct)
     (auto split: option.splits prod.splits)

lemma process_lines_eq:
  "process_lines st ls = foldl accept_rpy st (List.map_filter parse_line_rpy ls)"
  by (induction st ls rule: process_lines.induct)
     (auto split: option.splits)

subsection \<open>Pitch.py\<close>

lemma accept_p_fields:
  "pitch_buf_p (accept_p st v) = deque_append (pitch_buf_p st) v"
  "x_idx_p (accept_p st v) = push_index (x_idx_p st)"
  "ax1_xlim_p (accept_p st v) = ax1_xlim_p st"
  by (simp_all add: accept_p_def Let_def push_index_def)

lemma fold_accept_p:
  "pitch_buf_p (foldl accept_p st ss) = foldl deque_append (pitch_buf_p st) ss"
  "x_idx_p (foldl accept_p st ss) =
     (push_index ^^ length ss) (x_idx_p st)"
  by (induction ss arbitrary: st) (simp_all add: accept_p_fields funpow_swap1)

lemma update_p_fields:
  "pitch_buf_p (fst (update_p st rs)) =
     foldl deque_append (pitch_buf_p st) (List.map_filter parse_line_p (fst (read_lines 5 rs)))"
  "x_idx_p (fst (update_p st rs)) =
     (push_index ^^
        length (List.map_filter parse_line_p (fst (read_lines 5 rs)))) (x_idx_p st)"
  "snd (update_p st rs) = snd (read_lines 5 rs)"
  "ax1_xlim_p (fst (update_p st rs)) = xlim_bounds (x_idx_p (fst (update_p st rs)))"
  by (simp_all add: update_p_def read_loop_p_eq fold_accept_p)

lemma ticks_p_Suc: "ticks_p (Suc n) st rs = ticks_p n (fst (update_p st rs)) (snd (update_p st rs))"
  by (simp add: case_prod_beta)

lemma ticks_p_fields:
  "pitch_buf_p (fst (ticks_p n st rs)) = foldl deque_append (pitch_buf_p st) (accepted_p n rs)"
  "x_idx_p (fst (ticks_p n st rs)) =
     (push_index ^^ length (accepted_p n rs)) (x_idx_p st)"
proof (induction n arbitrary: st rs)
  case 0
  { case 1 show ?case by simp }
  { case 2 show ?case by simp }
next
  case (Suc n)
  { case 1 show ?case
      by (simp only: ticks_p_Suc Suc.IH update_p_fields)
         (simp add: case_prod_beta) }
  { case 2 show ?case
      by (simp only: ticks_p_Suc Suc.IH update_p_fields)
         (simp add: case_prod_beta funpow_plus) }
qed

lemma ticks_p_last:
  "ticks_p (Suc n) st rs = update_p (fst (ticks_p n st rs)) (snd (ticks_p n st rs))"
proof (induction n arbitrary: st rs)
  case 0
  show ?case by (simp add: case_prod_beta)
next
  case (Suc n)
  have "ticks_p (Suc (Suc n)) st rs = ticks_p (Suc n) (fst (update_p st rs)) (snd (update_p st rs))"
    by (rule ticks_p_Suc)
  also have "\<dots> = update_p (fst (ticks_p n (fst (update_p st rs)) (snd (update_p st rs))))
                            (snd (ticks_p n (fst (update_p st rs)) (snd (update_p st rs))))"
    by (rule Suc.IH)
  also have "\<dots> = update_p (fst (ticks_p (Suc n) st rs)) (snd (ticks_p (Suc n) st rs))"
    by (simp only: ticks_p_Suc)
  finally show ?case .
qed

lemma ticks_p_len:
  "len (x_idx_p (fst (ticks_p n init_p rs))) = min (length (accepted_p n rs)) WINDOW"
  "len (pitch_buf_p (fst (ticks_p n init_p rs))) = min (length (accepted_p n rs)) WINDOW"
proof -
  show "len (x_idx_p (fst (ticks_p n init_p rs))) = min (length (accepted_p n rs)) WINDOW"
    by (simp add: ticks_p_fields init_p_def index_run_len)
  show "len (pitch_buf_p (fst (ticks_p n init_p rs))) = min (length (accepted_p n rs)) WINDOW"
    using len_pushes [of "deque_new WINDOW :: pyfloat deque" "accepted_p n rs"]
    by (simp add: ticks_p_fields init_p_def deque_new_def)
qed

lemma ticks_p_xlim:
  "ax1_xlim_p (fst (ticks_p (Suc n) st rs)) = xlim_bounds (x_idx_p (fst (ticks_p (Suc n) st rs)))"
  by (simp only: ticks_p_last update_p_fields)

subsection \<open>Roll_Pitch.py\<close>

lemma accept_rp_fields:
  "pitch_buf_rp (accept_rp st s) = deque_append (pitch_buf_rp st) (fst s)"
  "roll_buf_rp (accept_rp st s) = deque_append (roll_buf_rp st) (snd s)"
  "x_idx_rp (accept_rp st s) = push_index (x_idx_rp st)"
  "ax1_xlim_rp (accept_rp st s) = ax1_xlim_rp st"
  by (simp_all add: accept_rp_def Let_def push_index_def case_prod_beta)

lemma fold_accept_rp:
  "pitch_buf_rp (foldl accept_rp st ss) = foldl deque_append (pitch_buf_rp st) (map fst ss)"
  "roll_buf_rp (foldl accept_rp st ss) = foldl deque_append (roll_buf_rp st) (map snd ss)"
  "x_idx_rp (foldl accept_rp st ss) = (push_index ^^ length ss) (x_idx_rp st)"
  by (induction ss arbitrary: st) (simp_all add: accept_rp_fields funpow_swap1)

lemma update_rp_fields:
  "pitch_buf_rp (fst (update_rp st rs)) =
     foldl deque_append (pitch_buf_rp st)
       (map fst (List.map_filter parse_line_rp (fst (read_lines 20 rs))))"
  "roll_buf_rp (fst (update_rp st rs)) =
     foldl deque_append (roll_buf_rp st)
       (map snd (List.map_filter parse_line_rp (fst (read_lines 20 rs))))"
  "x_idx_rp (fst (update_rp st rs)) =
     (push_index ^^ length (List.map_filter parse_line_rp (fst (read_lines 20 rs)))) (x_idx_rp st)"
  "snd (update_rp st rs) = snd (read_lines 20 rs)"
  "ax1_xlim_rp (fst (update_rp st rs)) = xlim_bounds (x_idx_rp (fst (update_rp st rs)))"
  by (simp_all add: update_rp_def read_loop_rp_eq fold_accept_rp)

lemma ticks_rp_Suc:
  "ticks_rp (Suc n) st rs = ticks_rp n (fst (update_rp st rs)) (snd (update_rp st rs))"
  by (simp add: case_prod_beta)

lemma ticks_rp_fields:
  "pitch_buf_rp (fst (ticks_rp n st rs)) =
     foldl deque_append (pitch_buf_rp st) (map fst (accepted_rp n rs))"
  "roll_buf_rp (fst (ticks_rp n st rs)) =
     foldl deque_append (roll_buf_rp st) (map snd (accepted_rp n rs))"
  "x_idx_rp (fst (ticks_rp n st rs)) = (push_index ^^ length (accepted_rp n rs)) (x_idx_rp st)"
proof (induction n arbitrary: st rs)
  case 0
  { case 1 show ?case by simp }
  { case 2 show ?case by simp }
  { case 3 show ?case by simp }
next
  case (Suc n)
  { case 1 show ?case
      by (simp only: ticks_rp_Suc Suc.IH update_rp_fields)
         (simp add: case_prod_beta) }
  { case 2 show ?case
      by (simp only: ticks_rp_Suc Suc.IH update_rp_fields)
         (simp add: case_prod_beta) }
  { case 3 show ?case
      by (simp only: ticks_rp_Suc Suc.IH update_rp_fields)
         (simp add: case_prod_beta funpow_plus) }
qed

lemma ticks_rp_len:
  "len (x_idx_rp (fst (ticks_rp n init_rp rs))) = min (length (accepted_rp n rs)) WINDOW"
  "len (pitch_buf_rp (fst (ticks_rp n init_rp rs))) = min (length (accepted_rp n rs)) WINDOW"
  "len (roll_buf_rp (fst (ticks_rp n init_rp rs))) = min (length (accepted_rp n rs)) WINDOW"
proof -
  show "len (x_idx_rp (fst (ticks_rp n init_rp rs))) = min (length (accepted_rp n rs)) WINDOW"
    by (simp add: ticks_rp_fields init_rp_def index_run_len)
  show "len (pitch_buf_rp (fst (ticks_rp n init_rp rs))) = min (length (accepted_rp n rs)) WINDOW"
    using len_pushes [of "deque_new WINDOW :: pyfloat deque" "map fst (accepted_rp n rs)"]
    by (simp add: ticks_rp_fields init_rp_def deque_new_fields)
  show "len (roll_buf_rp (fst (ticks_rp n init_rp rs))) = min (length (accepted_rp n rs)) WINDOW"
    using len_pushes [of "deque_new WINDOW :: pyfloat deque" "map snd (accepted_rp n rs)"]
    by (simp add: ticks_rp_fields init_rp_def deque_new_fields)
qed

subsection \<open>Roll_Pitch_Yaw.py\<close>

lemma accept_rpy_fields:
  "pitch_buf (accept_rpy st s) = deque_append (pitch_buf st) (fst s)"
  "roll_buf (accept_rpy st s) = deque_append (roll_buf st) (fst (snd s))"
  "yaw_buf (accept_rpy st s) = deque_append (yaw_buf st) (snd (snd s))"
  "x_idx (accept_rpy st s) = push_index (x_idx st)"
  "ax1_xlim (accept_rpy st s) = ax1_xlim st"
  by (simp_all add: accept_rpy_def Let_def push_index_def case_prod_beta)

lemma fold_accept_rpy:
  "pitch_buf (foldl accept_rpy st ss) = foldl deque_append (pitch_buf st) (map fst ss)"
  "roll_buf (foldl accept_rpy st ss) = foldl deque_append (roll_buf st) (map (\<lambda>s. fst (snd s)) ss)"
  "yaw_buf (foldl accept_rpy st ss) = foldl deque_append (yaw_buf st) (map (\<lambda>s. snd (snd s)) ss)"
  "x_idx (foldl accept_rpy st ss) = (push_index ^^ length ss) (x_idx st)"
  by (induction ss arbitrary: st) (simp_all add: accept_rpy_fields funpow_swap1)

lemma update_rpy_fields:
  "pitch_buf (fst (update_rpy st rs)) =
     foldl deque_append (pitch_buf st)
       (map fst (List.map_filter parse_line_rpy (fst (read_lines 20 rs))))"
  "roll_buf (fst (update_rpy st rs)) =
     foldl deque_append (roll_buf st)
       (map (\<lambda>s. fst (snd s)) (List.map_filter parse_line_rpy (fst (read_lines 20 rs))))"
  "yaw_buf (fst (update_rpy st rs)) =
     foldl deque_append (yaw_buf st)
       (map (\<lambda>s. snd (snd s)) (List.map_filter parse_line_rpy (fst (read_lines 20 rs))))"
  "x_idx (fst (update_rpy st rs)) =
     (push_index ^^ length (List.map_filter parse_line_rpy (fst (read_lines 20 rs)))) (x_idx st)"
  "snd (update_rpy st rs) = snd (read_lines 20 rs)"
  "ax1_xlim (fst (update_rpy st rs)) = xlim_bounds (x_idx (fst (update_rpy st rs)))"
  by (simp_all add: update_rpy_def process_lines_eq fold_accept_rpy case_prod_beta Let_def)

lemma ticks_rpy_Suc:
  "ticks_rpy (Suc n) st rs = ticks_rpy n (fst (update_rpy st rs)) (snd (update_rpy st rs))"
  by (simp add: case_prod_beta)

lemma ticks_rpy_fields:
  "pitch_buf (fst (ticks_rpy n st rs)) =
     foldl deque_append (pitch_buf st) (map fst (accepted_rpy n rs))"
  "roll_buf (fst (ticks_rpy n st rs)) =
     foldl deque_append (roll_buf st) (map (\<lambda>s. fst (snd s)) (accepted_rpy n rs))"
  "yaw_buf (fst (ticks_rpy n st rs)) =
     foldl deque_append (yaw_buf st) (map (\<lambda>s. snd (snd s)) (accepted_rpy n rs))"
  "x_idx (fst (ticks_rpy n st rs)) = (push_index ^^ length (accepted_rpy n rs)) (x_idx st)"
proof (induction n arbitrary: st rs)
  case 0
  { case 1 show ?case by simp }
  { case 2 show ?case by simp }
  { case 3 show ?case by simp }
  { case 4 show ?case by simp }
next
  case (Suc n)
  { case 1 show ?case
      by (simp only: ticks_rpy_Suc Suc.IH update_rpy_fields)
         (simp add: case_prod_beta) }
  { case 2 show ?case
      by (simp only: ticks_rpy_Suc Suc.IH update_rpy_fields)
         (simp add: case_prod_beta) }
  { case 3 show ?case
      by (simp only: ticks_rpy_Suc Suc.IH update_rpy_fields)
         (simp add: case_prod_beta) }
  { case 4 show ?case
      by (simp only: ticks_rpy_Suc Suc.IH update_rpy_fields)
         (simp add: case_prod_beta funpow_plus) }
qed

lemma ticks_rpy_last:
  "ticks_rpy (Suc n) st rs = update_rpy (fst (ticks_rpy n st rs)) (snd (ticks_rpy n st rs))"
proof (induction n arbitrary: st rs)
  case 0
  show ?case by (simp add: case_prod_beta)
next
  case (Suc n)
  have "ticks_rpy (Suc (Suc n)) st rs =
          ticks_rpy (Suc n) (fst (update_rpy st rs)) (snd (update_rpy st rs))"
    by (rule ticks_rpy_Suc)
  also have "\<dots> = update_rpy (fst (ticks_rpy n (fst (update_rpy st rs)) (snd (update_rpy st rs))))
                              (snd (ticks_rpy n (fst (update_rpy st rs)) (snd (update_rpy st rs))))"
    by (rule Suc.IH)
  also have "\<dots> = update_rpy (fst (ticks_rpy (Suc n) st rs)) (snd (ticks_rpy (Suc n) st rs))"
    by (simp only: ticks_rpy_Suc)
  finally show ?case .
qed

lemma ticks_rpy_len:
  "len (x_idx (fst (ticks_rpy n init_rpy rs))) = min (length (accepted_rpy n rs)) WINDOW"
  "len (pitch_buf (fst (ticks_rpy n init_rpy rs))) = min (length (accepted_rpy n rs)) WINDOW"
  "len (roll_buf (fst (ticks_rpy n init_rpy rs))) = min (length (accepted_rpy n rs)) WINDOW"
  "len (yaw_buf (fst (ticks_rpy n init_rpy rs))) = min (length (accepted_rpy n rs)) WINDOW"
proof -
  show "len (x_idx (fst (ticks_rpy n init_rpy rs))) = min (length (accepted_rpy n rs)) WINDOW"
    by (simp add: ticks_rpy_fields init_rpy_def index_run_len)
  show "len (pitch_buf (fst (ticks_rpy n init_rpy rs))) = min (length (accepted_rpy n rs)) WINDOW"
    using len_pushes [of "deque_new WINDOW :: pyfloat deque" "map fst (accepted_rpy n rs)"]
    by (simp add: ticks_rpy_fields init_rpy_def deque_new_fields)
  show "len (roll_buf (fst (ticks_rpy n init_rpy rs))) = min (length (accepted_rpy n rs)) WINDOW"
    using len_pushes [of "deque_new WINDOW :: pyfloat deque" "map (\<lambda>s. fst (snd s)) (accepted_rpy n rs)"]
    by (simp add: ticks_rpy_fields init_rpy_def deque_new_fields)
  show "len (yaw_buf (fst (ticks_rpy n init_rpy rs))) = min (length (accepted_rpy n rs)) WINDOW"
    using len_pushes [of "deque_new WINDOW :: pyfloat deque" "map (\<lambda>s. snd (snd s)) (accepted_rpy n rs)"]
    by (simp add: ticks_rpy_fields init_rpy_def deque_new_fields)
qed

lemma ticks_rpy_xlim:
  "ax1_xlim (fst (ticks_rpy (Suc n) st rs)) = xlim_bounds (x_idx (fst (ticks_rpy (Suc n) st rs)))"
  by (simp only: ticks_rpy_last update_rpy_fields)

subsection \<open>A port that delivers the same line again and again\<close>

lemma read_lines_replicate:
  "l \<noteq> [] \<Longrightarrow> read_lines k (replicate m l) = (replicate (min k m) l, replicate (m - k) l)"
proof (induction k arbitrary: m)
  case 0
  show ?case by simp
next
  case (Suc k)
  then show ?case by (cases m) simp_all
qed

lemma map_filter_replicate: "f l = Some s \<Longrightarrow> List.map_filter f (replicate k l) = replicate k s"
  by (induction k) simp_all

lemma accepted_p_replicate:
  assumes "l \<noteq> []" and "parse_line_p l = Some s"
  shows "accepted_p n (replicate m l) = replicate (min (5 * n) m) s"
proof (induction n arbitrary: m)
  case 0
  show ?case by simp
next
  case (Suc n)
  have "min 5 m + min (5 * n) (m - 5) = min (5 * Suc n) m" by simp
  then show ?case
    using assms by (simp add: read_lines_replicate map_filter_replicate Suc.IH
        replicate_add [symmetric])
qed

lemma accepted_rpy_replicate:
  assumes "l \<noteq> []" and "parse_line_rpy l = Some s"
  shows "accepted_rpy n (replicate m l) = replicate (min (20 * n) m) s"
proof (induction n arbitrary: m)
  case 0
  show ?case by simp
next
  case (Suc n)
  have "min 20 m + min (20 * n) (m - 20) = min (20 * Suc n) m" by simp
  then show ?case
    using assms by (simp add: read_lines_replicate map_filter_replicate Suc.IH
        replicate_add [symmetric])
qed

lemmas float_eval =
  py_float_def strip_def py_isspace_def unsigned_float_def to_lower_def decimal_def
  mantissa_def exponent_def opt_digitpart_def is_digit_def digit_val_def digits_value_def
  scale10_def

lemma parse_sample_p: "parse_line_p ''1.0'' = Some (Finite 1)"
  by (simp add: parse_line_p_def float_eval)

lemma parse_sample_rpy: "parse_line_rpy ''1.0,2.0,3.0'' = Some (Finite 1, Finite 2, Finite 3)"
  by (simp add: parse_line_rpy_def float_eval)

section \<open>Claims about the driver loop\<close>

text \<open>
  Claim C1, as stated: the x-axis bounds after a tick are
  \<open>[max(0, count-WINDOW), max(WINDOW, count)]\<close> for \<open>count\<close> the total number of
  accepted samples, so \<open>[60, 260]\<close> after 260 samples. The scripts take the length of
  the index buffer instead, which never exceeds \<open>WINDOW\<close>: thirteen ticks of
  Roll_Pitch_Yaw.py on a port that delivers 260 good lines accept 260 samples and leave
  the bounds at \<open>(0, 200)\<close>.
\<close>

theorem xlim_total_count_counterexample:
  "length (accepted_rpy 13 (replicate 260 ''1.0,2.0,3.0'')) = 260
   \<and> ax1_xlim (fst (ticks_rpy 13 init_rpy (replicate 260 ''1.0,2.0,3.0''))) = (0, 200)
   \<and> ax1_xlim (fst (ticks_rpy 13 init_rpy (replicate 260 ''1.0,2.0,3.0''))) \<noteq> (60, 260)"
proof -
  have c: "accepted_rpy 13 (replicate 260 ''1.0,2.0,3.0'') = replicate 260 (Finite 1, Finite 2, Finite 3)"
    using accepted_rpy_replicate [of "''1.0,2.0,3.0''" "(Finite 1, Finite 2, Finite 3)" 13 260]
    by (simp add: parse_sample_rpy)
  have "ax1_xlim (fst (ticks_rpy (Suc 12) init_rpy (replicate 260 ''1.0,2.0,3.0''))) = (0, int WINDOW)"
    by (simp only: ticks_rpy_xlim) (simp add: xlim_bounds_full ticks_rpy_len)
  then have x: "ax1_xlim (fst (ticks_rpy 13 init_rpy (replicate 260 ''1.0,2.0,3.0''))) = (0, 200)"
    by (simp add: WINDOW_def)
  show ?thesis using c x by simp
qed

text \<open>
  Claim C1, amended. After each tick's batch the x-axis bounds are
  \<open>[max(0, m-WINDOW), max(WINDOW, m)]\<close> where \<open>m\<close> is the length of the index buffer,
  that is the number of accepted samples since startup capped at \<open>WINDOW\<close>; with
  \<open>WINDOW = 200\<close> the bounds are \<open>[0, 200]\<close> after every tick, after 50 accepted
  samples and after 260. This holds in Roll_Pitch_Yaw.py and in Pitch.py.
\<close>

theorem xlim_follows_buffer_length:
  "ax1_xlim (fst (ticks_rpy (Suc n) init_rpy rs)) =
     (let m = min (length (accepted_rpy (Suc n) rs)) WINDOW
      in (max 0 (int m - int WINDOW), max (int WINDOW) (int m)))
   \<and> ax1_xlim (fst (ticks_rpy (Suc n) init_rpy rs)) = (0, 200)
   \<and> ax1_xlim_p (fst (ticks_p (Suc n) init_p rs)) =
     (let m = min (length (accepted_p (Suc n) rs)) WINDOW
      in (max 0 (int m - int WINDOW), max (int WINDOW) (int m)))
   \<and> ax1_xlim_p (fst (ticks_p (Suc n) init_p rs)) = (0, 200)"
proof -
  have a: "ax1_xlim (fst (ticks_rpy (Suc n) init_rpy rs)) =
     (let m = min (length (accepted_rpy (Suc n) rs)) WINDOW
      in (max 0 (int m - int WINDOW), max (int WINDOW) (int m)))"
    by (simp only: ticks_rpy_xlim)
       (simp add: xlim_bounds_def ticks_rpy_len Let_def del: ticks_rpy.simps)
  have b: "ax1_xlim_p (fst (ticks_p (Suc n) init_p rs)) =
     (let m = min (length (accepted_p (Suc n) rs)) WINDOW
      in (max 0 (int m - int WINDOW), max (int WINDOW) (int m)))"
    by (simp only: ticks_p_xlim)
       (simp add: xlim_bounds_def ticks_p_len Let_def del: ticks_p.simps)
  have c: "ax1_xlim (fst (ticks_rpy (Suc n) init_rpy rs)) = (0, 200)"
    unfolding a by (simp add: Let_def WINDOW_def)
  have d: "ax1_xlim_p (fst (ticks_p (Suc n) init_p rs)) = (0, 200)"
    unfolding b by (simp add: Let_def WINDOW_def)
  show ?thesis using a b c d by blast
qed

theorem xlim_follows_buffer_length_witness:
  "length (accepted_rpy 3 (replicate 50 ''1.0,2.0,3.0'')) = 50
   \<and> ax1_xlim (fst (ticks_rpy 3 init_rpy (replicate 50 ''1.0,2.0,3.0''))) = (0, 200)
   \<and> length (accepted_p 52 (replicate 260 ''1.0'')) = 260
   \<and> ax1_xlim_p (fst (ticks_p 52 init_p (replicate 260 ''1.0''))) = (0, 200)"
proof -
  have a: "accepted_rpy 3 (replicate 50 ''1.0,2.0,3.0'') = replicate 50 (Finite 1, Finite 2, Finite 3)"
    using accepted_rpy_replicate [of "''1.0,2.0,3.0''" "(Finite 1, Finite 2, Finite 3)" 3 50]
    by (simp add: parse_sample_rpy)
  have b: "accepted_p 52 (replicate 260 ''1.0'') = replicate 260 (Finite 1)"
    using accepted_p_replicate [of "''1.0''" "Finite 1" 52 260]
    by (simp add: parse_sample_p)
  have c: "Suc 2 = 3" "Suc 51 = 52" by simp_all
  have d: "ax1_xlim (fst (ticks_rpy (Suc 2) init_rpy (replicate 50 ''1.0,2.0,3.0''))) = (0, 200)"
    using xlim_follows_buffer_length [of 2 "replicate 50 ''1.0,2.0,3.0''"] by blast
  have e: "ax1_xlim_p (fst (ticks_p (Suc 51) init_p (replicate 260 ''1.0''))) = (0, 200)"
    using xlim_follows_buffer_length [of 51 "replicate 260 ''1.0''"] by blast
  show ?thesis
    using d e by (simp only: a b c length_replicate simp_thms)
qed

text \<open>
  Claim C2 says that the value pushed to the index buffer counts the accepted samples
  \<open>1, 2, 3, \<dots>\<close> without bound. The scripts compute it as the length of the index
  buffer plus one, and the buffer never grows past \<open>WINDOW\<close>. In Pitch.py, 41 ticks on
  a port that delivers 202 good lines accept 202 samples; the values pushed for the
  200th, 201st and 202nd are 200, 201 and 201, where the specification's sequence has
  200, 201 and 202.
\<close>

theorem index_stops_at_window_plus_one:
  "length (accepted_p 41 (replicate 202 ''1.0'')) = 202
   \<and> drop 197 (snapshot (x_idx_p (fst (ticks_p 41 init_p (replicate 202 ''1.0''))))) = [200, 201, 201]
   \<and> drop 199 (index_spec 202) = [200, 201, 202]"
proof -
  have c: "accepted_p 41 (replicate 202 ''1.0'') = replicate 202 (Finite 1)"
    using accepted_p_replicate [of "''1.0''" "Finite 1" 41 202]
    by (simp add: parse_sample_p)
  have u: "[199..<202] = [199, 200, 201]" "[199..<200] = [199]"
    by (simp_all add: upt_rec)
  have "snapshot (x_idx_p (fst (ticks_p 41 init_p (replicate 202 ''1.0'')))) =
          drop 2 (map (\<lambda>k. min (int k) 201) [Suc 0..<Suc 202])"
    by (simp add: snapshot_def ticks_p_fields c init_p_def index_run_items WINDOW_def
             del: upt_Suc)
  then have s: "drop 197 (snapshot (x_idx_p (fst (ticks_p 41 init_p (replicate 202 ''1.0''))))) =
          [200, 201, 201]"
    by (simp add: drop_map u del: upt_Suc)
  have i: "drop 199 (index_spec 202) = [200, 201, 202]"
    by (simp add: index_spec_def drop_map u del: upt_Suc)
  show ?thesis using c s i by simp
qed

text \<open>
  Claim C8. After any number of ticks from startup all buffers of a script hold the same
  number of elements. In the three-axis script a line that does not parse leaves the
  state as it is, and an accepted sample is one append to each of the four buffers.
\<close>

theorem buffers_stay_in_step:
  "(let st = fst (ticks_rpy n init_rpy rs)
    in len (pitch_buf st) = len (x_idx st) \<and> len (roll_buf st) = len (x_idx st)
       \<and> len (yaw_buf st) = len (x_idx st))
   \<and> (let st = fst (ticks_rp n init_rp rs)
      in len (pitch_buf_rp st) = len (x_idx_rp st) \<and> len (roll_buf_rp st) = len (x_idx_rp st))
   \<and> (let st = fst (ticks_p n init_p rs)
      in len (pitch_buf_p st) = len (x_idx_p st))
   \<and> (parse_line_rpy raw = None \<longrightarrow> process_lines st [raw] = st)
   \<and> (parse_line_rpy raw = Some (p, r, y) \<longrightarrow>
        process_lines st [raw] =
          st\<lparr>pitch_buf := deque_append (pitch_buf st) p,
             roll_buf := deque_append (roll_buf st) r,
             yaw_buf := deque_append (yaw_buf st) y,
             x_idx := deque_append (x_idx st) (next_index (x_idx st))\<rparr>)
   \<and> (parse_line_rp raw = None \<longrightarrow> read_loop_rp 1 st2 [raw] = (st2, []))
   \<and> (raw \<noteq> [] \<and> parse_line_rp raw = Some (p, r) \<longrightarrow>
        read_loop_rp 1 st2 [raw] =
          (st2\<lparr>pitch_buf_rp := deque_append (pitch_buf_rp st2) p,
               roll_buf_rp := deque_append (roll_buf_rp st2) r,
               x_idx_rp := deque_append (x_idx_rp st2) (next_index (x_idx_rp st2))\<rparr>, []))"
  by (simp add: ticks_rpy_len ticks_rp_len ticks_p_len accept_rpy_def accept_rp_def Let_def)

theorem buffers_stay_in_step_witness:
  "len (pitch_buf (fst (ticks_rpy 1 init_rpy [''10.0,5.0,0.0'', ''bad,line'']))) =
     len (x_idx (fst (ticks_rpy 1 init_rpy [''10.0,5.0,0.0'', ''bad,line''])))
   \<and> parse_line_rpy ''bad,line'' = None
   \<and> process_lines init_rpy [''bad,line''] = init_rpy
   \<and> parse_line_rpy ''10.0,5.0,0.0'' = Some (Finite 10, Finite 5, Finite 0)
   \<and> snapshot (pitch_buf (process_lines init_rpy [''10.0,5.0,0.0''])) = [Finite 10]
   \<and> snapshot (x_idx (process_lines init_rpy [''10.0,5.0,0.0''])) = [1]
   \<and> parse_line_rp ''bad,line'' = None
   \<and> read_loop_rp 1 init_rp [''bad,line''] = (init_rp, [])
   \<and> parse_line_rp ''10.0,5.0'' = Some (Finite 10, Finite 5)
   \<and> snapshot (roll_buf_rp (fst (read_loop_rp 1 init_rp [''10.0,5.0'']))) = [Finite 5]"
proof -
  have bad: "parse_line_rpy ''bad,line'' = None" "parse_line_rp ''bad,line'' = None"
    by (simp_all add: parse_line_rpy_def parse_line_rp_def float_eval)
  have good: "parse_line_rpy ''10.0,5.0,0.0'' = Some (Finite 10, Finite 5, Finite 0)"
     "parse_line_rp ''10.0,5.0'' = Some (Finite 10, Finite 5)"
    by (simp_all add: parse_line_rpy_def parse_line_rp_def float_eval)
  note w1 = buffers_stay_in_step [of 1 "[''10.0,5.0,0.0'', ''bad,line'']" "''bad,line''" init_rpy
      "Finite 10" "Finite 5" "Finite 0" init_rp]
  note w2 = buffers_stay_in_step [of 1 "[''10.0,5.0,0.0'', ''bad,line'']" "''10.0,5.0,0.0''" init_rpy
      "Finite 10" "Finite 5" "Finite 0" init_rp]
  note w3 = buffers_stay_in_step [of 1 "[''10.0,5.0,0.0'', ''bad,line'']" "''10.0,5.0''" init_rpy
      "Finite 10" "Finite 5" "Finite 0" init_rp]
  have a: "len (pitch_buf (fst (ticks_rpy 1 init_rpy [''10.0,5.0,0.0'', ''bad,line'']))) =
     len (x_idx (fst (ticks_rpy 1 init_rpy [''10.0,5.0,0.0'', ''bad,line''])))"
    using w1 by (simp add: Let_def)
  have b: "process_lines init_rpy [''bad,line''] = init_rpy"
    using w1 bad by blast
  have c: "read_loop_rp 1 init_rp [''bad,line''] = (init_rp, [])"
    using w1 bad by blast
  have d: "snapshot (pitch_buf (process_lines init_rpy [''10.0,5.0,0.0''])) = [Finite 10]"
     "snapshot (x_idx (process_lines init_rpy [''10.0,5.0,0.0''])) = [1]"
    using w2 good
    by (simp_all add: snapshot_def init_rpy_def deque_new_def deque_append_def next_index_def
          WINDOW_def Let_def)
  have e: "snapshot (roll_buf_rp (fst (read_loop_rp 1 init_rp [''10.0,5.0'']))) = [Finite 5]"
    using w3 good
    by (simp add: snapshot_def init_rp_def deque_new_def deque_append_def next_index_def
          WINDOW_def Let_def)
  show ?thesis using a b c d e bad good by simp
qed

section \<open>Claims about the parsers\<close>

text \<open>
  Claim C3, as stated: every parser ignores the fields beyond those it reads, so a
  four-field line with three numeric leading fields yields a sample under the
  pitch+roll+yaw parser. That parser tests \<open>len(parts) == 3\<close> and \<open>len(parts) == 2\<close>
  and returns no sample otherwise: the line \<open>1.0,2.0,3.0,4.0\<close> has three numeric
  leading fields and is rejected.
\<close>

theorem parse_line_rpy_extra_field_counterexample:
  "split_comma (strip ''1.0,2.0,3.0,4.0'') = [''1.0'', ''2.0'', ''3.0'', ''4.0'']
   \<and> py_float ''1.0'' = Some (Finite 1)
   \<and> py_float ''2.0'' = Some (Finite 2)
   \<and> py_float ''3.0'' = Some (Finite 3)
   \<and> parse_line_rpy ''1.0,2.0,3.0,4.0'' = None"
  by (simp add: parse_line_rpy_def float_eval)

text \<open>
  Claim C3, amended. The pitch-only parser reads the first field and the pitch+roll
  parser the first two, whatever fields follow, so a line whose leading fields are valid
  numerics is accepted by them regardless of extra fields. The pitch+roll+yaw parser
  does not ignore extra fields: a line of four or more fields yields no sample.
\<close>

theorem extra_fields_by_variant:
  "(split_comma (strip line) = a # rest \<longrightarrow> parse_line_p line = py_float a)
   \<and> (split_comma (strip line) = a # b # others \<longrightarrow>
        parse_line_rp line =
          (case (py_float a, py_float b) of
             (Some pitch, Some roll) \<Rightarrow> Some (pitch, roll)
           | _ \<Rightarrow> None))
   \<and> (4 \<le> length (split_comma (strip line)) \<longrightarrow> parse_line_rpy line = None)"
  by (simp add: parse_line_p_def parse_line_rp_def parse_line_rpy_def Let_def)

theorem extra_fields_by_variant_witness:
  "split_comma (strip ''1.0,2.0,3.0,4.0'') = ''1.0'' # ''2.0'' # [''3.0'', ''4.0'']
   \<and> parse_line_p ''1.0,2.0,3.0,4.0'' = Some (Finite 1)
   \<and> parse_line_rp ''1.0,2.0,3.0,4.0'' = Some (Finite 1, Finite 2)
   \<and> 4 \<le> length (split_comma (strip ''1.0,2.0,3.0,4.0''))
   \<and> parse_line_rpy ''1.0,2.0,3.0,4.0'' = None"
proof -
  have s: "split_comma (strip ''1.0,2.0,3.0,4.0'') = ''1.0'' # ''2.0'' # [''3.0'', ''4.0'']"
    by (simp add: strip_def py_isspace_def)
  have f: "py_float ''1.0'' = Some (Finite 1)" "py_float ''2.0'' = Some (Finite 2)"
    by (simp_all add: float_eval)
  note w = extra_fields_by_variant [of "''1.0,2.0,3.0,4.0''" "''1.0''" "''2.0'' # [''3.0'', ''4.0'']"
      "''2.0''" "[''3.0'', ''4.0'']"]
  have p: "parse_line_p ''1.0,2.0,3.0,4.0'' = Some (Finite 1)"
    using w s f by simp
  have rp: "parse_line_rp ''1.0,2.0,3.0,4.0'' = Some (Finite 1, Finite 2)"
    using w s f by simp
  have l: "4 \<le> length (split_comma (strip ''1.0,2.0,3.0,4.0''))"
    by (simp add: s)
  have rpy: "parse_line_rpy ''1.0,2.0,3.0,4.0'' = None"
    using w l by blast
  show ?thesis using s p rp l rpy by blast
qed

text \<open>
  Claim C6. The pitch+roll+yaw parser returns \<open>(pitch, roll, yaw)\<close> for a line of
  exactly three fields that all parse as floats, \<open>(pitch, roll, 0.0)\<close> for a line of
  exactly two fields that both parse, and no sample exactly when the line has another
  number of fields or one of its fields does not parse. The line \<open>20.0,7.0\<close> yields
  \<open>(20.0, 7.0, 0.0)\<close>.
\<close>

theorem parse_line_rpy_cases:
  "(split_comma (strip line) = [a, b, c] \<and> py_float a = Some p \<and> py_float b = Some r
      \<and> py_float c = Some y \<longrightarrow> parse_line_rpy line = Some (p, r, y))
   \<and> (split_comma (strip line) = [a, b] \<and> py_float a = Some p \<and> py_float b = Some r
      \<longrightarrow> parse_line_rpy line = Some (p, r, Finite 0))
   \<and> (parse_line_rpy line = None \<longleftrightarrow>
        (length (split_comma (strip line)) \<noteq> 3 \<and> length (split_comma (strip line)) \<noteq> 2)
        \<or> (\<exists>f \<in> set (split_comma (strip line)). py_float f = None))
   \<and> parse_line_rpy ''20.0,7.0'' = Some (Finite 20, Finite 7, Finite 0)"
proof -
  let ?parts = "split_comma (strip line)"
  have three: "?parts = [a, b, c] \<and> py_float a = Some p \<and> py_float b = Some r
      \<and> py_float c = Some y \<longrightarrow> parse_line_rpy line = Some (p, r, y)"
    by (simp add: parse_line_rpy_def)
  have two: "?parts = [a, b] \<and> py_float a = Some p \<and> py_float b = Some r
      \<longrightarrow> parse_line_rpy line = Some (p, r, Finite 0)"
    by (simp add: parse_line_rpy_def)
  have none: "parse_line_rpy line = None \<longleftrightarrow>
        (length ?parts \<noteq> 3 \<and> length ?parts \<noteq> 2) \<or> (\<exists>f \<in> set ?parts. py_float f = None)"
  proof (cases "length ?parts = 3")
    case True
    then obtain u v w where "?parts = [u, v, w]"
      by (auto simp: numeral_3_eq_3 length_Suc_conv)
    then show ?thesis
      by (auto simp: parse_line_rpy_def split: option.splits)
  next
    case False
    show ?thesis
    proof (cases "length ?parts = 2")
      case True
      then obtain u v where "?parts = [u, v]"
        by (auto simp: numeral_2_eq_2 length_Suc_conv)
      then show ?thesis
        by (auto simp: parse_line_rpy_def split: option.splits)
    next
      case False
      with \<open>length ?parts \<noteq> 3\<close> show ?thesis
        by (simp add: parse_line_rpy_def)
    qed
  qed
  have ex: "parse_line_rpy ''20.0,7.0'' = Some (Finite 20, Finite 7, Finite 0)"
    by (simp add: parse_line_rpy_def float_eval)
  show ?thesis using three two none ex by blast
qed

theorem parse_line_rpy_cases_witness:
  "split_comma (strip ''10.0,5.0,0.5'') = [''10.0'', ''5.0'', ''0.5'']
   \<and> py_float ''10.0'' = Some (Finite 10) \<and> py_float ''5.0'' = Some (Finite 5)
   \<and> py_float ''0.5'' = Some (Finite (1 / 2))
   \<and> parse_line_rpy ''10.0,5.0,0.5'' = Some (Finite 10, Finite 5, Finite (1 / 2))
   \<and> split_comma (strip ''10.0,5.0'') = [''10.0'', ''5.0'']
   \<and> parse_line_rpy ''10.0,5.0'' = Some (Finite 10, Finite 5, Finite 0)
   \<and> py_float ''bad'' = None
   \<and> parse_line_rpy ''12.0,bad,1.0'' = None
   \<and> length (split_comma (strip ''7.5'')) = 1
   \<and> parse_line_rpy ''7.5'' = None"
proof -
  have s3: "split_comma (strip ''10.0,5.0,0.5'') = [''10.0'', ''5.0'', ''0.5'']"
    and s2: "split_comma (strip ''10.0,5.0'') = [''10.0'', ''5.0'']"
    and sb: "split_comma (strip ''12.0,bad,1.0'') = [''12.0'', ''bad'', ''1.0'']"
    and s1: "split_comma (strip ''7.5'') = [''7.5'']"
    by (simp_all add: strip_def py_isspace_def)
  have f: "py_float ''10.0'' = Some (Finite 10)" "py_float ''5.0'' = Some (Finite 5)"
    "py_float ''0.5'' = Some (Finite (1 / 2))" "py_float ''bad'' = None"
    by (simp_all add: float_eval)
  have a: "parse_line_rpy ''10.0,5.0,0.5'' = Some (Finite 10, Finite 5, Finite (1 / 2))"
    using parse_line_rpy_cases [of "''10.0,5.0,0.5''" "''10.0''" "''5.0''" "''0.5''"
        "Finite 10" "Finite 5" "Finite (1 / 2)"] s3 f by blast
  have b: "parse_line_rpy ''10.0,5.0'' = Some (Finite 10, Finite 5, Finite 0)"
    using parse_line_rpy_cases [of "''10.0,5.0''" "''10.0''" "''5.0''" "''0.5''"
        "Finite 10" "Finite 5" "Finite (1 / 2)"] s2 f by blast
  have c: "parse_line_rpy ''12.0,bad,1.0'' = None"
    using parse_line_rpy_cases [of "''12.0,bad,1.0''" "''10.0''" "''5.0''" "''0.5''"
        "Finite 10" "Finite 5" "Finite (1 / 2)"] sb f by simp
  have d: "parse_line_rpy ''7.5'' = None"
    using parse_line_rpy_cases [of "''7.5''" "''10.0''" "''5.0''" "''0.5''"
        "Finite 10" "Finite 5" "Finite (1 / 2)"] s1 by simp
  show ?thesis using s3 s2 s1 f a b c d by simp
qed

section \<open>PoseComposer properties\<close>

lemmas geom =
  tw_def td_def th_def leg_w_def leg_h_def leg_inset_def tabletop_def leg_positions_def
  leg_def legs_def

lemma length3: "length v = 3 \<longleftrightarrow> (\<exists>a b c. v = [a, b, c])"
  by (auto simp: numeral_3_eq_3 length_Suc_conv)

lemma tabletop_rows: "list_all (\<lambda>v. length v = 3) tabletop"
  by (simp add: tabletop_def)

lemma legs_rows: "list_all (list_all (\<lambda>v. length v = 3)) legs"
  by (simp add: legs_def leg_def leg_positions_def)

lemma those_map_cong_Some:
  "list_all (\<lambda>x. g x = Some (f x)) xs \<Longrightarrow> those (map g xs) = Some (map f xs)"
  by (induction xs) simp_all

text \<open>Multiplying rows by the transpose of a 3 by 3 matrix applies the matrix to each row.\<close>

lemma matmul_transpose_rows:
  assumes "list_all (\<lambda>v. length v = 3) A"
  shows "matmul A (transpose [[a, b, c], [d, e, f], [g, h, i]]) =
           Some (map (apply_mat [[a, b, c], [d, e, f], [g, h, i]]) A)"
proof -
  have "\<And>v. v \<in> set A \<Longrightarrow>
          map (dot v) [[a, b, c], [d, e, f], [g, h, i]] =
          apply_mat [[a, b, c], [d, e, f], [g, h, i]] v"
  proof -
    fix v assume "v \<in> set A"
    with assms have "length v = 3" by (simp add: list_all_iff)
    then obtain x y z where "v = [x, y, z]" by (auto simp: length3)
    then show "map (dot v) [[a, b, c], [d, e, f], [g, h, i]] =
                 apply_mat [[a, b, c], [d, e, f], [g, h, i]] v"
      by (simp add: apply_mat_def dot_def mult.commute)
  qed
  then have "map (\<lambda>v. map (dot v) [[a, b, c], [d, e, f], [g, h, i]]) A =
             map (apply_mat [[a, b, c], [d, e, f], [g, h, i]]) A"
    by simp
  moreover have "transpose (transpose [[a, b, c], [d, e, f], [g, h, i]]) =
                   [[a, b, c], [d, e, f], [g, h, i]]"
    by simp
  moreover have "list_all (\<lambda>v. length v = length (transpose [[a, b, c], [d, e, f], [g, h, i]])) A"
    using assms by (simp add: numeral_3_eq_3)
  ultimately show ?thesis
    by (simp add: matmul_def)
qed

lemma apply_mat3_rows:
  "list_all (\<lambda>v. length v = 3) A \<Longrightarrow>
   list_all (\<lambda>v. length v = 3) (map (apply_mat [[a, b, c], [d, e, f], [g, h, i]]) A)"
  by (simp add: list_all_iff apply_mat_def)

lemma lift_rows:
  assumes "list_all (\<lambda>v. length v = 3) A"
  shows "lift A = Some (map lift_vertex A)"
proof -
  have "\<And>v. v \<in> set A \<Longrightarrow> v[2 := v ! 2 + 1.5] = lift_vertex v"
  proof -
    fix v assume "v \<in> set A"
    with assms have "length v = 3" by (simp add: list_all_iff)
    then obtain x y z where "v = [x, y, z]" by (auto simp: length3)
    then show "v[2 := v ! 2 + 1.5] = lift_vertex v"
      by (simp add: numeral_2_eq_2)
  qed
  moreover have "list_all (\<lambda>v. 2 < length v) A"
    using assms by (simp add: list_all_iff)
  ultimately show ?thesis
    by (simp add: lift_def)
qed

text \<open>The common second half of \<open>create_table_vertices\<close>, vertex by vertex.\<close>

lemma rotate_and_lift_vertices:
  "rotate_and_lift [[a, b, c], [d, e, f], [g, h, i]] =
     Some (map (\<lambda>v. lift_vertex (apply_mat [[a, b, c], [d, e, f], [g, h, i]] v)) tabletop,
           map (map (\<lambda>v. lift_vertex (apply_mat [[a, b, c], [d, e, f], [g, h, i]] v))) legs)"
proof -
  let ?R = "[[a, b, c], [d, e, f], [g, h, i]]"
  have t: "matmul tabletop (transpose ?R) = Some (map (apply_mat ?R) tabletop)"
    by (rule matmul_transpose_rows [OF tabletop_rows])
  have l: "those (map (\<lambda>leg. matmul leg (transpose ?R)) legs) =
             Some (map (map (apply_mat ?R)) legs)"
  proof (rule those_map_cong_Some, unfold list_all_iff, rule ballI)
    fix x assume "x \<in> set legs"
    then have "list_all (\<lambda>v. length v = 3) x"
      using legs_rows by (simp add: list_all_iff)
    then show "matmul x (transpose ?R) = Some (map (apply_mat ?R) x)"
      by (rule matmul_transpose_rows)
  qed
  have tl: "lift (map (apply_mat ?R) tabletop) = Some (map lift_vertex (map (apply_mat ?R) tabletop))"
    by (rule lift_rows [OF apply_mat3_rows [OF tabletop_rows]])
  have "list_all (\<lambda>x. lift (map (apply_mat ?R) x) =
                      Some (map (\<lambda>v. lift_vertex (apply_mat ?R v)) x)) legs"
    unfolding list_all_iff
  proof
    fix x assume "x \<in> set legs"
    then have "list_all (\<lambda>v. length v = 3) x"
      using legs_rows by (simp add: list_all_iff)
    then have "list_all (\<lambda>v. length v = 3) (map (apply_mat ?R) x)"
      by (rule apply_mat3_rows)
    then have "lift (map (apply_mat ?R) x) = Some (map lift_vertex (map (apply_mat ?R) x))"
      by (rule lift_rows)
    then show "lift (map (apply_mat ?R) x) = Some (map (\<lambda>v. lift_vertex (apply_mat ?R v)) x)"
      by (simp add: comp_def)
  qed
  then have ll: "those (map (\<lambda>x. lift (map (apply_mat ?R) x)) legs) =
                   Some (map (map (\<lambda>v. lift_vertex (apply_mat ?R v))) legs)"
    by (rule those_map_cong_Some
          [of "\<lambda>x. lift (map (apply_mat ?R) x)" "map (\<lambda>v. lift_vertex (apply_mat ?R v))" legs])
  show ?thesis
    by (simp add: rotate_and_lift_def t l tl ll comp_def del: transpose.simps)
qed

lemma rotation_rpy_eq:
  "rotation_rpy p r y =
     Some [[cos (radians y) * cos (radians p) - sin (radians y) * sin (radians r) * sin (radians p),
            - (sin (radians y) * cos (radians r)),
            cos (radians y) * sin (radians p) + sin (radians y) * sin (radians r) * cos (radians p)],
           [sin (radians y) * cos (radians p) + cos (radians y) * sin (radians r) * sin (radians p),
            cos (radians y) * cos (radians r),
            sin (radians y) * sin (radians p) - cos (radians y) * sin (radians r) * cos (radians p)],
           [- (cos (radians r) * sin (radians p)), sin (radians r),
            cos (radians r) * cos (radians p)]]"
  by (simp add: rotation_rpy_def matmul_def Rz_def Rx_def Ry_def dot_def)

lemma rotation_rp_eq:
  "rotation_rp p r =
     Some [[cos (radians p), 0, sin (radians p)],
           [sin (radians r) * sin (radians p), cos (radians r),
            - (sin (radians r) * cos (radians p))],
           [- (cos (radians r) * sin (radians p)), sin (radians r),
            cos (radians r) * cos (radians p)]]"
  by (simp add: rotation_rp_def matmul_def Rx_def Ry_def dot_def)

text \<open>The composed matrix acts as pitch, then roll, then yaw.\<close>

lemma rotation_rpy_acts:
  assumes "rotation_rpy p r y = Some R"
  shows "apply_mat R [u, v, w] =
     apply_mat (Rz (radians y)) (apply_mat (Rx (radians r)) (apply_mat (Ry (radians p)) [u, v, w]))"
proof -
  have R: "R = the (rotation_rpy p r y)" using assms by simp
  show ?thesis
    unfolding R rotation_rpy_eq option.sel
    by (simp add: apply_mat_def dot_def Rz_def Rx_def Ry_def algebra_simps)
qed

lemma rotation_rp_acts:
  assumes "rotation_rp p r = Some R"
  shows "apply_mat R [u, v, w] =
     apply_mat (Rz (radians 0)) (apply_mat (Rx (radians r)) (apply_mat (Ry (radians p)) [u, v, w]))"
proof -
  have R: "R = the (rotation_rp p r)" using assms by simp
  have z: "radians 0 = 0" by (simp add: radians_def)
  show ?thesis
    unfolding R rotation_rp_eq option.sel z
    by (simp add: apply_mat_def dot_def Rz_def Rx_def Ry_def algebra_simps)
qed

lemma map_rows_cong:
  assumes "list_all (\<lambda>v. length v = 3) A"
    and "\<And>u v w. f [u, v, w] = g [u, v, w]"
  shows "map f A = map g A"
proof (rule map_cong [OF refl])
  fix x assume "x \<in> set A"
  with assms(1) have "length x = 3" by (simp add: list_all_iff)
  then obtain u v w where "x = [u, v, w]" by (auto simp: length3)
  then show "f x = g x" by (simp only: assms(2))
qed

lemma map_legs_cong:
  assumes "list_all (list_all (\<lambda>v. length v = 3)) L"
    and "\<And>u v w. f [u, v, w] = g [u, v, w]"
  shows "map (map f) L = map (map g) L"
proof (rule map_cong [OF refl])
  fix x assume "x \<in> set L"
  with assms(1) have "list_all (\<lambda>v. length v = 3) x" by (simp add: list_all_iff)
  then show "map f x = map g x" using assms(2) by (rule map_rows_cong)
qed

lemma create_table_vertices_rpy_eq:
  "create_table_vertices_rpy p r y =
     Some (map (pose_spec p r y) tabletop, map (map (pose_spec p r y)) legs)"
proof -
  obtain R where R: "rotation_rpy p r y = Some R" by (simp add: rotation_rpy_eq)
  then obtain a b c d e f g h i where s: "R = [[a, b, c], [d, e, f], [g, h, i]]"
    by (auto simp: rotation_rpy_eq)
  have pt: "\<And>u v w. lift_vertex (apply_mat R [u, v, w]) = pose_spec p r y [u, v, w]"
    unfolding pose_spec_def by (simp only: rotation_rpy_acts [OF R])
  have "create_table_vertices_rpy p r y =
          Some (map (\<lambda>v. lift_vertex (apply_mat R v)) tabletop,
                map (map (\<lambda>v. lift_vertex (apply_mat R v))) legs)"
    by (simp add: create_table_vertices_rpy_def R) (simp add: s rotate_and_lift_vertices)
  also have "map (\<lambda>v. lift_vertex (apply_mat R v)) tabletop = map (pose_spec p r y) tabletop"
    by (rule map_rows_cong [OF tabletop_rows]) (rule pt)
  also have "map (map (\<lambda>v. lift_vertex (apply_mat R v))) legs = map (map (pose_spec p r y)) legs"
    by (rule map_legs_cong [OF legs_rows]) (rule pt)
  finally show ?thesis .
qed

lemma create_table_vertices_rp_eq:
  "create_table_vertices_rp p r =
     Some (map (pose_spec p r 0) tabletop, map (map (pose_spec p r 0)) legs)"
proof -
  obtain R where R: "rotation_rp p r = Some R" by (simp add: rotation_rp_eq)
  then obtain a b c d e f g h i where s: "R = [[a, b, c], [d, e, f], [g, h, i]]"
    by (auto simp: rotation_rp_eq)
  have pt: "\<And>u v w. lift_vertex (apply_mat R [u, v, w]) = pose_spec p r 0 [u, v, w]"
    unfolding pose_spec_def by (simp only: rotation_rp_acts [OF R])
  have "create_table_vertices_rp p r =
          Some (map (\<lambda>v. lift_vertex (apply_mat R v)) tabletop,
                map (map (\<lambda>v. lift_vertex (apply_mat R v))) legs)"
    by (simp add: create_table_vertices_rp_def R) (simp add: s rotate_and_lift_vertices)
  also have "map (\<lambda>v. lift_vertex (apply_mat R v)) tabletop = map (pose_spec p r 0) tabletop"
    by (rule map_rows_cong [OF tabletop_rows]) (rule pt)
  also have "map (map (\<lambda>v. lift_vertex (apply_mat R v))) legs = map (map (pose_spec p r 0)) legs"
    by (rule map_legs_cong [OF legs_rows]) (rule pt)
  finally show ?thesis .
qed

subsection \<open>Faces\<close>

lemma those_map_map_option:
  "those (map (\<lambda>x. map_option f (g x)) xs) = map_option (map f) (those (map g xs))"
  by (induction xs) (auto split: option.splits simp: option.map_comp comp_def)

lemma row_map: "row (map f a) i = map_option f (row a i)"
  by (simp add: row_def)

text \<open>The faces are built from row indices alone, so they follow any change of the vertices.\<close>

lemma cuboid_faces_map: "cuboid_faces (map f a) = map_option (map (map f)) (cuboid_faces a)"
  unfolding cuboid_faces_def row_map those_map_map_option ..

lemma create_table_faces_map:
  "create_table_faces (map f t) (map (map f) l) =
     map_option (map (map f)) (create_table_faces t l)"
proof -
  have "those (map cuboid_faces (map (map f) l)) =
          map_option (map (map (map f))) (those (map cuboid_faces l))"
    by (simp add: comp_def cuboid_faces_map those_map_map_option)
  then show ?thesis
    by (cases "cuboid_faces t"; cases "those (map cuboid_faces l)")
       (simp_all add: create_table_faces_def cuboid_faces_map map_concat)
qed

lemma cuboid_faces_8:
  "cuboid_faces [v0, v1, v2, v3, v4, v5, v6, v7] =
     Some [[v0, v1, v2, v3], [v4, v5, v6, v7], [v0, v1, v5, v4],
           [v2, v3, v7, v6], [v0, v3, v7, v4], [v1, v2, v6, v5]]"
  by (simp add: cuboid_faces_def row_def)

lemma base_faces:
  "\<exists>faces. create_table_faces tabletop legs = Some faces \<and> length faces = 30
     \<and> list_all (\<lambda>face. length face = 4) faces"
  by (simp add: create_table_faces_def tabletop_def legs_def leg_def leg_positions_def
        cuboid_faces_8)

subsection \<open>Rigid motion\<close>

lemma sq_dist3:
  "sq_dist [a, b, c] [d, e, f] = (a - d)\<^sup>2 + (b - e)\<^sup>2 + (c - f)\<^sup>2"
  by (simp add: sq_dist_def)

lemma Ry_keeps_dist:
  "sq_dist (apply_mat (Ry t) [a, b, c]) (apply_mat (Ry t) [d, e, f]) = sq_dist [a, b, c] [d, e, f]"
proof -
  define k s where "k = cos t" and "s = sin t"
  have u: "s * s = 1 - k * k"
    using sin_cos_squared_add [of t] by (simp add: k_def s_def power2_eq_square algebra_simps)
  have "(k * a + s * c - (k * d + s * f))\<^sup>2 + (k * c - s * a - (k * f - s * d))\<^sup>2 = (a - d)\<^sup>2 + (c - f)\<^sup>2"
    using u by algebra
  then show ?thesis
    by (simp add: sq_dist3 apply_mat_def dot_def Ry_def k_def s_def)
qed

lemma Rx_keeps_dist:
  "sq_dist (apply_mat (Rx t) [a, b, c]) (apply_mat (Rx t) [d, e, f]) = sq_dist [a, b, c] [d, e, f]"
proof -
  define k s where "k = cos t" and "s = sin t"
  have u: "s * s = 1 - k * k"
    using sin_cos_squared_add [of t] by (simp add: k_def s_def power2_eq_square algebra_simps)
  have "(k * b - s * c - (k * e - s * f))\<^sup>2 + (s * b + k * c - (s * e + k * f))\<^sup>2 = (b - e)\<^sup>2 + (c - f)\<^sup>2"
    using u by algebra
  then show ?thesis
    by (simp add: sq_dist3 apply_mat_def dot_def Rx_def k_def s_def)
qed

lemma Rz_keeps_dist:
  "sq_dist (apply_mat (Rz t) [a, b, c]) (apply_mat (Rz t) [d, e, f]) = sq_dist [a, b, c] [d, e, f]"
proof -
  define k s where "k = cos t" and "s = sin t"
  have u: "s * s = 1 - k * k"
    using sin_cos_squared_add [of t] by (simp add: k_def s_def power2_eq_square algebra_simps)
  have "(k * a - s * b - (k * d - s * e))\<^sup>2 + (s * a + k * b - (s * d + k * e))\<^sup>2 = (a - d)\<^sup>2 + (b - e)\<^sup>2"
    using u by algebra
  then show ?thesis
    by (simp add: sq_dist3 apply_mat_def dot_def Rz_def k_def s_def)
qed

lemma apply_mat3_shape:
  "\<exists>x y z. apply_mat [[a, b, c], [d, e, f], [g, h, i]] v = [x, y, z]"
  by (simp add: apply_mat_def)

lemma lift_keeps_dist:
  "sq_dist (lift_vertex [a, b, c]) (lift_vertex [d, e, f]) = sq_dist [a, b, c] [d, e, f]"
  by (simp add: sq_dist3)

lemma pose_spec_keeps_dist:
  "sq_dist (pose_spec p r y [a, b, c]) (pose_spec p r y [d, e, f]) = sq_dist [a, b, c] [d, e, f]"
proof -
  obtain a1 b1 c1 where 1: "apply_mat (Ry (radians p)) [a, b, c] = [a1, b1, c1]"
    using apply_mat3_shape unfolding Ry_def by blast
  obtain d1 e1 f1 where 2: "apply_mat (Ry (radians p)) [d, e, f] = [d1, e1, f1]"
    using apply_mat3_shape unfolding Ry_def by blast
  obtain a2 b2 c2 where 3: "apply_mat (Rx (radians r)) [a1, b1, c1] = [a2, b2, c2]"
    using apply_mat3_shape unfolding Rx_def by blast
  obtain d2 e2 f2 where 4: "apply_mat (Rx (radians r)) [d1, e1, f1] = [d2, e2, f2]"
    using apply_mat3_shape unfolding Rx_def by blast
  obtain a3 b3 c3 where 5: "apply_mat (Rz (radians y)) [a2, b2, c2] = [a3, b3, c3]"
    using apply_mat3_shape unfolding Rz_def by blast
  obtain d3 e3 f3 where 6: "apply_mat (Rz (radians y)) [d2, e2, f2] = [d3, e3, f3]"
    using apply_mat3_shape unfolding Rz_def by blast
  have "sq_dist (pose_spec p r y [a, b, c]) (pose_spec p r y [d, e, f]) =
          sq_dist (lift_vertex [a3, b3, c3]) (lift_vertex [d3, e3, f3])"
    by (simp only: pose_spec_def 1 2 3 4 5 6)
  also have "\<dots> = sq_dist [a3, b3, c3] [d3, e3, f3]"
    by (rule lift_keeps_dist)
  also have "\<dots> = sq_dist [a2, b2, c2] [d2, e2, f2]"
    unfolding 5 [symmetric] 6 [symmetric] by (rule Rz_keeps_dist)
  also have "\<dots> = sq_dist [a1, b1, c1] [d1, e1, f1]"
    unfolding 3 [symmetric] 4 [symmetric] by (rule Rx_keeps_dist)
  also have "\<dots> = sq_dist [a, b, c] [d, e, f]"
    unfolding 1 [symmetric] 2 [symmetric] by (rule Ry_keeps_dist)
  finally show ?thesis .
qed

lemma base_points_rows: "list_all (\<lambda>v. length v = 3) (mesh_points (tabletop, legs))"
  by (simp add: mesh_points_def tabletop_def legs_def leg_def leg_positions_def)

lemma mesh_points_map:
  "mesh_points (map f t, map (map f) l) = map f (mesh_points (t, l))"
  by (simp add: mesh_points_def map_concat)

lemma posed_mesh_keeps_dist:
  assumes "i < length (mesh_points (tabletop, legs))"
    and "j < length (mesh_points (tabletop, legs))"
  shows "sq_dist (mesh_points (map (pose_spec p r y) tabletop, map (map (pose_spec p r y)) legs) ! i)
                 (mesh_points (map (pose_spec p r y) tabletop, map (map (pose_spec p r y)) legs) ! j)
         = sq_dist (mesh_points (tabletop, legs) ! i) (mesh_points (tabletop, legs) ! j)"
proof -
  let ?b = "mesh_points (tabletop, legs)"
  have "length (?b ! i) = 3" "length (?b ! j) = 3"
    using assms base_points_rows by (simp_all add: list_all_length)
  then obtain a b c d e f where "?b ! i = [a, b, c]" "?b ! j = [d, e, f]"
    by (auto simp: length3)
  then show ?thesis
    using assms by (simp add: mesh_points_map pose_spec_keeps_dist)
qed

subsection \<open>The composed matrix is a rotation\<close>

lemma rotation_rpy_orthogonal:
  "\<exists>R. rotation_rpy p r y = Some R \<and> matmul (transpose R) R = Some identity3 \<and> det3 R = 1"
proof -
  define cp sp cr sr cy sy where "cp = cos (radians p)" and "sp = sin (radians p)"
    and "cr = cos (radians r)" and "sr = sin (radians r)"
    and "cy = cos (radians y)" and "sy = sin (radians y)"
  have P: "sp * sp = 1 - cp * cp" and R: "sr * sr = 1 - cr * cr" and Y: "sy * sy = 1 - cy * cy"
    using sin_cos_squared_add [of "radians p"] sin_cos_squared_add [of "radians r"]
      sin_cos_squared_add [of "radians y"]
    by (simp_all add: cp_def sp_def cr_def sr_def cy_def sy_def power2_eq_square algebra_simps)
  have e: "rotation_rpy p r y =
     Some [[cy * cp - sy * sr * sp, - (sy * cr), cy * sp + sy * sr * cp],
           [sy * cp + cy * sr * sp, cy * cr, sy * sp - cy * sr * cp],
           [- (cr * sp), sr, cr * cp]]"
    by (simp add: rotation_rpy_eq cp_def sp_def cr_def sr_def cy_def sy_def)
  have d: "det3 [[cy * cp - sy * sr * sp, - (sy * cr), cy * sp + sy * sr * cp],
           [sy * cp + cy * sr * sp, cy * cr, sy * sp - cy * sr * cp],
           [- (cr * sp), sr, cr * cp]] = 1"
    using P R Y by simp algebra
  show ?thesis
    unfolding e
    by (simp add: d matmul_def dot_def identity3_def del: det3.simps;
        intro conjI; use P R Y in algebra)
qed

lemma rotation_rp_orthogonal:
  "\<exists>R. rotation_rp p r = Some R \<and> matmul (transpose R) R = Some identity3 \<and> det3 R = 1"
proof -
  define cp sp cr sr where "cp = cos (radians p)" and "sp = sin (radians p)"
    and "cr = cos (radians r)" and "sr = sin (radians r)"
  have P: "sp * sp = 1 - cp * cp" and R: "sr * sr = 1 - cr * cr"
    using sin_cos_squared_add [of "radians p"] sin_cos_squared_add [of "radians r"]
    by (simp_all add: cp_def sp_def cr_def sr_def power2_eq_square algebra_simps)
  have e: "rotation_rp p r =
     Some [[cp, 0, sp], [sr * sp, cr, - (sr * cp)], [- (cr * sp), sr, cr * cp]]"
    by (simp add: rotation_rp_eq cp_def sp_def cr_def sr_def)
  have d: "det3 [[cp, 0, sp], [sr * sp, cr, - (sr * cp)], [- (cr * sp), sr, cr * cp]] = 1"
    using P R by simp algebra
  show ?thesis
    unfolding e
    by (simp add: d matmul_def dot_def identity3_def del: det3.simps;
        intro conjI; use P R in algebra)
qed

section \<open>Claims about the PoseComposer\<close>

text \<open>
  Claim C4. \<open>create_table_vertices\<close> composes \<open>R = Rz \<cdot> Rx \<cdot> Ry\<close> from the angles
  in radians and sends every vertex \<open>v\<close> of the rest pose to \<open>v \<cdot> R\<^sup>T\<close> plus the lift
  along the vertical axis; \<open>v \<cdot> R\<^sup>T\<close> is \<open>R\<close> applied to \<open>v\<close>, which is the pitch
  rotation applied first, then roll, then yaw. The pitch+roll script computes the same
  pose with \<open>Rz\<close> the identity.
\<close>

theorem pose_is_pitch_roll_yaw_then_lift:
  "rotation_rpy p r y =
     matmul (Rz (radians y)) (Rx (radians r)) \<bind> (\<lambda>m. matmul m (Ry (radians p)))
   \<and> (\<exists>R. rotation_rpy p r y = Some R
          \<and> create_table_vertices_rpy p r y =
              Some (map (\<lambda>v. lift_vertex (apply_mat R v)) tabletop,
                    map (map (\<lambda>v. lift_vertex (apply_mat R v))) legs)
          \<and> matmul tabletop (transpose R) = Some (map (apply_mat R) tabletop))
   \<and> create_table_vertices_rpy p r y =
       Some (map (pose_spec p r y) tabletop, map (map (pose_spec p r y)) legs)
   \<and> create_table_vertices_rp p r =
       Some (map (pose_spec p r 0) tabletop, map (map (pose_spec p r 0)) legs)
   \<and> create_table_vertices_rp p r = create_table_vertices_rpy p r 0
   \<and> Rz (radians 0) = identity3"
proof -
  have a: "rotation_rpy p r y =
     matmul (Rz (radians y)) (Rx (radians r)) \<bind> (\<lambda>m. matmul m (Ry (radians p)))"
    by (simp add: rotation_rpy_def)
  obtain R where R: "rotation_rpy p r y = Some R" by (simp add: rotation_rpy_eq)
  then obtain a1 a2 a3 b1 b2 b3 c1 c2 c3 where s: "R = [[a1, a2, a3], [b1, b2, b3], [c1, c2, c3]]"
    by (auto simp: rotation_rpy_eq)
  have b: "create_table_vertices_rpy p r y =
              Some (map (\<lambda>v. lift_vertex (apply_mat R v)) tabletop,
                    map (map (\<lambda>v. lift_vertex (apply_mat R v))) legs)"
    by (simp add: create_table_vertices_rpy_def R) (simp add: s rotate_and_lift_vertices)
  have c: "matmul tabletop (transpose R) = Some (map (apply_mat R) tabletop)"
    unfolding s by (rule matmul_transpose_rows [OF tabletop_rows])
  have d: "Rz (radians 0) = identity3"
    by (simp add: Rz_def radians_def identity3_def)
  have e: "\<exists>R. rotation_rpy p r y = Some R
          \<and> create_table_vertices_rpy p r y =
              Some (map (\<lambda>v. lift_vertex (apply_mat R v)) tabletop,
                    map (map (\<lambda>v. lift_vertex (apply_mat R v))) legs)
          \<and> matmul tabletop (transpose R) = Some (map (apply_mat R) tabletop)"
    using R b c by blast
  have f: "create_table_vertices_rp p r = create_table_vertices_rpy p r 0"
    by (simp only: create_table_vertices_rpy_eq create_table_vertices_rp_eq)
  show ?thesis
    by (intro conjI a e d f create_table_vertices_rpy_eq create_table_vertices_rp_eq)
qed

text \<open>
  Claim C7. At the angles \<open>(0, 0, 0)\<close> the composed rotation is the identity matrix, the
  vertices returned are those of the rest pose with only the lift applied, and the faces
  built from them are the faces of the rest pose with the same lift.
\<close>

theorem rest_pose_is_lifted_base:
  "rotation_rpy 0 0 0 = Some identity3
   \<and> create_table_vertices_rpy 0 0 0 = Some (map lift_vertex tabletop, map (map lift_vertex) legs)
   \<and> (\<exists>faces. create_table_faces tabletop legs = Some faces
          \<and> create_table_faces (map lift_vertex tabletop) (map (map lift_vertex) legs) =
              Some (map (map lift_vertex) faces))"
proof -
  have a: "rotation_rpy 0 0 0 = Some identity3"
    by (simp add: rotation_rpy_eq radians_def identity3_def)
  have pt: "\<And>u v w. pose_spec 0 0 0 [u, v, w] = lift_vertex [u, v, w]"
    by (simp add: pose_spec_def radians_def apply_mat_def dot_def Rz_def Rx_def Ry_def)
  have t: "map (pose_spec 0 0 0) tabletop = map lift_vertex tabletop"
    by (rule map_rows_cong [OF tabletop_rows]) (rule pt)
  have l: "map (map (pose_spec 0 0 0)) legs = map (map lift_vertex) legs"
    by (rule map_legs_cong [OF legs_rows]) (rule pt)
  have b: "create_table_vertices_rpy 0 0 0 =
             Some (map lift_vertex tabletop, map (map lift_vertex) legs)"
    by (simp only: create_table_vertices_rpy_eq t l)
  obtain faces where f: "create_table_faces tabletop legs = Some faces"
    using base_faces by blast
  then have c: "create_table_faces (map lift_vertex tabletop) (map (map lift_vertex) legs) =
                  Some (map (map lift_vertex) faces)"
    by (simp add: create_table_faces_map)
  show ?thesis using a b f c by blast
qed

text \<open>
  Claim C9. For every angle triple, also outside \<open>[-180, 180]\<close>, no operation of
  \<open>create_table_vertices\<close> and \<open>create_table_faces\<close> fails: the vertices are returned
  and the 30 four-point faces are built from them. Equal angles give equal poses.
\<close>

theorem pose_composer_total:
  "(\<exists>t l faces. create_table_vertices_rpy p r y = Some (t, l)
       \<and> create_table_faces t l = Some faces
       \<and> length faces = 30 \<and> list_all (\<lambda>face. length face = 4) faces)
   \<and> (p' = p \<and> r' = r \<and> y' = y \<longrightarrow>
        create_table_vertices_rpy p' r' y' = create_table_vertices_rpy p r y)"
proof -
  obtain faces where f: "create_table_faces tabletop legs = Some faces"
    and n: "length faces = 30" and q: "list_all (\<lambda>face. length face = 4) faces"
    using base_faces by blast
  have "create_table_faces (map (pose_spec p r y) tabletop) (map (map (pose_spec p r y)) legs) =
          Some (map (map (pose_spec p r y)) faces)"
    by (simp add: create_table_faces_map f)
  moreover have "length (map (map (pose_spec p r y)) faces) = 30"
    using n by simp
  moreover have "list_all (\<lambda>face. length face = 4) (map (map (pose_spec p r y)) faces)"
    using q by (simp add: list_all_iff)
  ultimately show ?thesis
    using create_table_vertices_rpy_eq [of p r y] by blast
qed

theorem pose_composer_total_witness:
  "(\<exists>t l faces. create_table_vertices_rpy 270 (- 400) 1000 = Some (t, l)
       \<and> create_table_faces t l = Some faces
       \<and> length faces = 30 \<and> list_all (\<lambda>face. length face = 4) faces)
   \<and> create_table_vertices_rpy (135 + 135) (- 400) 1000 = create_table_vertices_rpy 270 (- 400) 1000"
proof -
  have "(135::real) + 135 = 270" by simp
  then show ?thesis
    using pose_composer_total [of 270 "- 400" 1000 "135 + 135" "- 400" 1000] by blast
qed

text \<open>
  Claim C10. For every angle triple the composed matrix \<open>R\<close> satisfies \<open>R\<^sup>T \<cdot> R = I\<close> and
  has determinant 1, in the three-axis and in the pitch+roll script, and the pose is a
  rigid motion of the rest pose: the distance between any two vertices of the posed mesh
  is the distance between the same two vertices of the rest pose.
\<close>

theorem pose_is_rigid_motion:
  "(\<exists>R. rotation_rpy p r y = Some R \<and> matmul (transpose R) R = Some identity3 \<and> det3 R = 1)
   \<and> (\<exists>R. rotation_rp p r = Some R \<and> matmul (transpose R) R = Some identity3 \<and> det3 R = 1)
   \<and> (\<exists>m. create_table_vertices_rpy p r y = Some m
        \<and> length (mesh_points m) = length (mesh_points (tabletop, legs))
        \<and> (\<forall>i < length (mesh_points m). \<forall>j < length (mesh_points m).
              sq_dist (mesh_points m ! i) (mesh_points m ! j) =
              sq_dist (mesh_points (tabletop, legs) ! i) (mesh_points (tabletop, legs) ! j)))
   \<and> (\<exists>m. create_table_vertices_rp p r = Some m
        \<and> length (mesh_points m) = length (mesh_points (tabletop, legs))
        \<and> (\<forall>i < length (mesh_points m). \<forall>j < length (mesh_points m).
              sq_dist (mesh_points m ! i) (mesh_points m ! j) =
              sq_dist (mesh_points (tabletop, legs) ! i) (mesh_points (tabletop, legs) ! j)))"
proof -
  have len: "\<And>q. length (mesh_points (map (pose_spec p r q) tabletop,
                                        map (map (pose_spec p r q)) legs)) =
                  length (mesh_points (tabletop, legs))"
    by (simp add: mesh_points_map)
  have a: "\<exists>m. create_table_vertices_rpy p r y = Some m
        \<and> length (mesh_points m) = length (mesh_points (tabletop, legs))
        \<and> (\<forall>i < length (mesh_points m). \<forall>j < length (mesh_points m).
              sq_dist (mesh_points m ! i) (mesh_points m ! j) =
              sq_dist (mesh_points (tabletop, legs) ! i) (mesh_points (tabletop, legs) ! j))"
    unfolding create_table_vertices_rpy_eq
    using len [of y] posed_mesh_keeps_dist [of _ _ p r y] by auto
  have b: "\<exists>m. create_table_vertices_rp p r = Some m
        \<and> length (mesh_points m) = length (mesh_points (tabletop, legs))
        \<and> (\<forall>i < length (mesh_points m). \<forall>j < length (mesh_points m).
              sq_dist (mesh_points m ! i) (mesh_points m ! j) =
              sq_dist (mesh_points (tabletop, legs) ! i) (mesh_points (tabletop, legs) ! j))"
    unfolding create_table_vertices_rp_eq
    using len [of 0] posed_mesh_keeps_dist [of _ _ p r 0] by auto
  show ?thesis
    using rotation_rpy_orthogonal [of p r y] rotation_rp_orthogonal [of p r] a b by blast
qed

theorem pose_is_rigid_motion_witness:
  "\<exists>m. create_table_vertices_rpy 30 45 60 = Some m
      \<and> length (mesh_points m) = 40
      \<and> sq_dist (mesh_points m ! 0) (mesh_points m ! 6) = 13 + 9 / 400"
proof -
  have n: "length (mesh_points (tabletop, legs)) = 40"
    by (simp add: mesh_points_def tabletop_def legs_def leg_def leg_positions_def)
  have b: "mesh_points (tabletop, legs) ! 0 = [- tw / 2, - td / 2, 0]"
    "mesh_points (tabletop, legs) ! 6 = [tw / 2, td / 2, th]"
    by (simp_all add: mesh_points_def tabletop_def)
  have d: "sq_dist (mesh_points (tabletop, legs) ! 0) (mesh_points (tabletop, legs) ! 6) = 13 + 9 / 400"
    unfolding b by (simp add: sq_dist3 tw_def td_def th_def power2_eq_square)
  obtain m where m: "create_table_vertices_rpy 30 45 60 = Some m"
    and l: "length (mesh_points m) = length (mesh_points (tabletop, legs))"
    and k: "\<forall>i < length (mesh_points m). \<forall>j < length (mesh_points m).
              sq_dist (mesh_points m ! i) (mesh_points m ! j) =
              sq_dist (mesh_points (tabletop, legs) ! i) (mesh_points (tabletop, legs) ! j)"
    using pose_is_rigid_motion [of 30 45 60] by blast
  have "sq_dist (mesh_points m ! 0) (mesh_points m ! 6) = 13 + 9 / 400"
    using k l n d by simp
  then show ?thesis using m l n by simp
qed

end
